theory Spec2Isabelle
  imports Main "HOL-Library.Word"
begin

section \<open>The build tree view of sweetpad (src/build/tree.ts)\<close>

text \<open>
  The file defines two classes. \<open>BuildTreeItem\<close> is the presentation record of one scheme;
  \<open>BuildTreeProvider\<close> listens to the build manager's events, keeps the \<open>isLoading\<close> flag and
  answers the host's \<open>getChildren\<close> and \<open>getTreeItem\<close> queries.

  The embedding is shallow. Objects are records, the provider's mutable field and every
  effect on the outside (the change signal, the logger, the host's commands, the calls into
  the manager) are fields of one record \<open>World\<close> that each operation takes and returns, the
  rejected promise of the manager is the left summand of a sum, and the polling wait is a
  recursive function over the firings of the interval timer, which the host schedules
  from the period the code passes to \<open>setInterval\<close>.
\<close>

subsection \<open>Strings and values\<close>

text \<open>
  A JavaScript string is a sequence of UTF-16 code units. Concatenation (a template
  literal) is \<open>@\<close>, \<open>===\<close> on two strings is equality of the sequences, and a string is falsy
  exactly when it is empty. \<open>ascii\<close> writes a literal of ASCII characters.
\<close>

type_synonym js_string = "16 word list"

definition ascii :: "string \<Rightarrow> js_string" where
  "ascii s = map of_char s"

text \<open>The values passed to commands and carried by events.\<close>

datatype js_value = JSUndefined | JSNull | JSBoolean bool | JSString js_string

text \<open>A thrown value (the reason of a rejected promise).\<close>

datatype js_error = Error js_string

subsection \<open>The host's tree item\<close>

datatype TreeItemCollapsibleState = None_state | Collapsed | Expanded

record ThemeColor =
  color_id :: js_string

record ThemeIcon =
  icon_id :: js_string
  color :: "ThemeColor option"

text \<open>
  \<open>vscode.TreeItem\<close>: the constructor takes the label and the collapsible state; every other
  property starts out undefined (\<open>None\<close>).
\<close>

record TreeItem =
  label :: js_string
  collapsibleState :: TreeItemCollapsibleState
  iconPath :: "ThemeIcon option"
  description :: "js_string option"
  contextValue :: "js_string option"

definition TreeItem_constructor :: "js_string \<Rightarrow> TreeItemCollapsibleState \<Rightarrow> TreeItem" where
  "TreeItem_constructor l cs =
     \<lparr>label = l, collapsibleState = cs, iconPath = None, description = None,
      contextValue = None\<rparr>"

subsection \<open>BuildTreeItem\<close>

text \<open>There is one provider object; an item holds a reference to it.\<close>

datatype ProviderRef = This

record BuildTreeItem = TreeItem +
  provider :: ProviderRef
  scheme :: js_string

record BuildTreeItemOptions =
  opt_scheme :: js_string
  opt_isDefaultBuild :: bool
  opt_isDefaultTesting :: bool
  opt_isSchemeRunning :: bool
  opt_collapsibleState :: TreeItemCollapsibleState
  opt_provider :: ProviderRef

text \<open>The check mark U+2713 is one UTF-16 code unit.\<close>

definition checkMark :: "16 word" where
  "checkMark = 0x2713"

text \<open>Lines 27 to 36: the description is built up from the empty string.\<close>

definition buildDescription :: "bool \<Rightarrow> bool \<Rightarrow> js_string" where
  "buildDescription isDefaultBuild isDefaultTesting =
     (let description = [];
          description = (if isDefaultBuild then description @ ascii '' '' @ [checkMark]
                         else description);
          description = (if isDefaultTesting then description @ ascii '' (t)''
                         else description)
      in description)"

text \<open>Lines 41 to 43: the context value.\<close>

definition buildContextValue :: "bool \<Rightarrow> js_string" where
  "buildContextValue isSchemeRunning =
     (let status = (if isSchemeRunning then ascii ''running'' else ascii ''idle'');
          contextPrefix = ascii ''build''
      in contextPrefix @ ascii ''&status='' @ status)"

definition BuildTreeItem_constructor :: "BuildTreeItemOptions \<Rightarrow> BuildTreeItem" where
  "BuildTreeItem_constructor options =
     (let super = TreeItem_constructor (opt_scheme options) (opt_collapsibleState options);
          color = \<lparr>color_id = ascii ''sweetpad.scheme''\<rparr>;
          description =
            buildDescription (opt_isDefaultBuild options) (opt_isDefaultTesting options)
      in \<lparr>label = label super,
          collapsibleState = collapsibleState super,
          iconPath = Some \<lparr>icon_id = ascii ''sweetpad-package'', color = Some color\<rparr>,
          description = (if description \<noteq> [] then Some description else None),
          contextValue = Some (buildContextValue (opt_isSchemeRunning options)),
          provider = opt_provider options,
          scheme = opt_scheme options\<rparr>)"

subsection \<open>The world the provider acts on\<close>

text \<open>
  \<open>EventData\<close> is the payload type of the change signal:
  \<open>BuildTreeItem | undefined | null\<close>.
\<close>

datatype EventData = Item BuildTreeItem | Undefined | Null

text \<open>A call of \<open>vscode.commands.executeCommand\<close>: the command and its arguments.\<close>

record Command =
  command :: js_string
  arguments :: "js_value list"

text \<open>The calls the provider makes into the build manager.\<close>

datatype ManagerCall =
    CallGetSchemes
  | CallGetDefaultSchemeForBuild
  | CallGetDefaultSchemeForTesting
  | CallIsSchemeRunning js_string

text \<open>
  \<open>isLoading\<close> is the provider's private field. The other fields record what the provider
  has done to its surroundings, oldest entry first: the payloads fired on
  \<open>_onDidChangeTreeData\<close>, the calls of \<open>commonLogger.error\<close> (message and error), the commands
  executed on the host together with the host's context keys that \<open>setContext\<close> writes, and
  the calls into the manager.
\<close>

record World =
  isLoading :: bool
  fired :: "EventData list"
  errorLog :: "(js_string \<times> js_error) list"
  executed :: "Command list"
  contextKeys :: "js_string \<rightharpoonup> js_value"
  managerCalls :: "ManagerCall list"

text \<open>
  The host's \<open>executeCommand\<close>. The built-in command \<open>setContext\<close> stores its second
  argument under the key given as its first; no other command is used by this file.
\<close>

definition executeCommand :: "js_string \<Rightarrow> js_value list \<Rightarrow> World \<Rightarrow> World" where
  "executeCommand cmd args w =
     (let w' = w\<lparr>executed := executed w @ [\<lparr>command = cmd, arguments = args\<rparr>]\<rparr>
      in if cmd = ascii ''setContext''
         then (case args of
                 [JSString key, v] \<Rightarrow> w'\<lparr>contextKeys := (contextKeys w')(key \<mapsto> v)\<rparr>
               | _ \<Rightarrow> w')
         else w')"

definition logger_error :: "js_string \<Rightarrow> js_error \<Rightarrow> World \<Rightarrow> World" where
  "logger_error msg err w = w\<lparr>errorLog := errorLog w @ [(msg, err)]\<rparr>"

subsection \<open>BuildTreeProvider: construction and events\<close>

text \<open>Lines 79 to 83.\<close>

definition updateView :: "World \<Rightarrow> World" where
  "updateView w = w\<lparr>fired := fired w @ [Null]\<rparr>"

text \<open>
  The constructor (lines 52 to 77) initialises \<open>isLoading\<close> to false and registers five
  listeners with \<open>buildManager.on\<close>. \<open>constructed\<close> is the world right after it, with nothing
  fired, logged, executed or asked yet; \<open>listeners\<close> is the table of registrations, in the
  order of the source. A listener receives the event's arguments. The fields \<open>context\<close> and
  \<open>buildManager\<close> are assigned once and never written again; \<open>context\<close> is not read in this
  file, and the manager is a parameter of the operations that read it.
\<close>

definition constructed :: World where
  "constructed =
     \<lparr>isLoading = False, fired = [], errorLog = [], executed = [],
      contextKeys = Map.empty, managerCalls = []\<rparr>"

definition listeners :: "(js_string \<times> (js_value list \<Rightarrow> World \<Rightarrow> World)) list" where
  "listeners =
     [(ascii ''refreshSchemesStarted'', \<lambda>args w. updateView (w\<lparr>isLoading := True\<rparr>)),
      (ascii ''refreshSchemesCompleted'', \<lambda>args w. updateView (w\<lparr>isLoading := False\<rparr>)),
      (ascii ''refreshSchemesFailed'', \<lambda>args w. updateView (w\<lparr>isLoading := False\<rparr>)),
      (ascii ''defaultSchemeForBuildUpdated'', \<lambda>args w. updateView w),
      (ascii ''defaultSchemeForTestingUpdated'', \<lambda>args w. updateView w)]"

text \<open>
  Modelled from the spec: the event emitter of the build manager (src/build/manager.ts is
  not among the sources). An event has a name and arguments; the manager offers
  \<open>on(eventName, handler)\<close>, and emitting an event runs, in the order of registration, the
  listeners registered under its name.
\<close>

record ManagerEvent =
  eventName :: js_string
  eventArgs :: "js_value list"

fun runListeners ::
  "(js_string \<times> (js_value list \<Rightarrow> World \<Rightarrow> World)) list \<Rightarrow> ManagerEvent \<Rightarrow> World \<Rightarrow> World"
where
  "runListeners [] ev w = w"
| "runListeners ((n, h) # ls) ev w =
     runListeners ls ev (if n = eventName ev then h (eventArgs ev) w else w)"

definition emit :: "ManagerEvent \<Rightarrow> World \<Rightarrow> World" where
  "emit ev w = runListeners listeners ev w"

fun emitAll :: "ManagerEvent list \<Rightarrow> World \<Rightarrow> World" where
  "emitAll [] w = w"
| "emitAll (ev # evs) w = emitAll evs (emit ev w)"

subsection \<open>The build manager, as the provider sees it\<close>

text \<open>
  Modelled from the spec: the type \<open>XcodeScheme\<close> (src/common/cli/scripts is not among the
  sources), of which this file reads the field \<open>name\<close> only.
\<close>

record XcodeScheme =
  name :: js_string

text \<open>
  Modelled from the spec: the interface of \<open>BuildManager\<close> (src/build/manager.ts is not among
  the sources), as far as this file uses it. A value of the record is what the manager
  answers during one call of the provider. \<open>getSchemes()\<close> is asynchronous and may fail:
  its promise settles \<open>fetchMs\<close> milliseconds after the call with \<open>outcome\<close>, a rejection on
  the left, and the events in \<open>meanwhile\<close> are delivered while the provider awaits it.
  \<open>getDefaultSchemeForBuild()\<close> and \<open>getDefaultSchemeForTesting()\<close> return a name or
  nothing, \<open>isSchemeRunning(name)\<close> a boolean; the three are synchronous.
\<close>

record BuildManager =
  fetchMs :: nat
  meanwhile :: "ManagerEvent list"
  outcome :: "js_error + XcodeScheme list"
  defaultSchemeForBuild :: "js_string option"
  defaultSchemeForTesting :: "js_string option"
  isSchemeRunning :: "js_string \<Rightarrow> bool"

subsection \<open>getSchemes (lines 115 to 149)\<close>

text \<open>
  \<open>noSchemesCommand\<close> is the command of line 128 and \<open>schemeItem\<close> the function mapped over
  the schemes on lines 135 to 148. \<open>name === default\<close> is false when the default is
  undefined. In \<open>getSchemes\<close> the failure of the fetch is caught, logged and turned into
  the empty list.
\<close>

definition noSchemesCommand :: Command where
  "noSchemesCommand =
     \<lparr>command = ascii ''setContext'',
      arguments = [JSString (ascii ''sweetpad.build.noSchemes''), JSBoolean True]\<rparr>"

definition schemeItem :: "BuildManager \<Rightarrow> XcodeScheme \<Rightarrow> BuildTreeItem" where
  "schemeItem mgr s =
     (let isDefaultBuild = (Some (name s) = defaultSchemeForBuild mgr);
          isDefaultTesting = (Some (name s) = defaultSchemeForTesting mgr);
          isRunning = isSchemeRunning mgr (name s)
      in BuildTreeItem_constructor
           \<lparr>opt_scheme = name s,
            opt_isDefaultBuild = isDefaultBuild,
            opt_isDefaultTesting = isDefaultTesting,
            opt_isSchemeRunning = isRunning,
            opt_collapsibleState = None_state,
            opt_provider = This\<rparr>)"

definition getSchemes :: "BuildManager \<Rightarrow> World \<Rightarrow> BuildTreeItem list \<times> World" where
  "getSchemes mgr w0 =
     (let w1 = w0\<lparr>managerCalls := managerCalls w0 @ [CallGetSchemes]\<rparr>;
          w2 = emitAll (meanwhile mgr) w1;
          (schemes, w3) =
            (case outcome mgr of
               Inr fetched \<Rightarrow> (fetched, w2)
             | Inl error \<Rightarrow> ([], logger_error (ascii ''Failed to get schemes'') error w2));
          w4 = (if length schemes = 0
                then executeCommand (command noSchemesCommand) (arguments noSchemesCommand) w3
                else w3);
          w5 = w4\<lparr>managerCalls := managerCalls w4 @
                 [CallGetDefaultSchemeForBuild, CallGetDefaultSchemeForTesting] @
                 map (\<lambda>s. CallIsSchemeRunning (name s)) schemes\<rparr>
      in (map (schemeItem mgr) schemes, w5))"

subsection \<open>getChildren (lines 85 to 109) and getTreeItem (lines 111 to 113)\<close>

text \<open>
  The wait of lines 94 to 104. The interval timer fires again and again; between two firings
  other callbacks run, among them the manager's events. A \<open>Tick\<close> is one firing: the events
  delivered since the previous firing (or since the wait began) and the value \<open>Date.now()\<close>
  returns in the callback, in milliseconds.

  \<open>pollLoading\<close> is the callback run firing after firing, from firing \<open>k\<close> on: it returns
  the index of the firing that clears the interval and resolves the promise, and the world
  at that moment. A wait that no firing ends has the value \<open>None\<close>.
\<close>

record Tick =
  arrived :: "ManagerEvent list"
  now :: int

definition timeoutMs :: int where
  "timeoutMs = 10 * 1000"

definition pollIntervalMs :: int where
  "pollIntervalMs = 100"

partial_function (option) pollLoading ::
  "(nat \<Rightarrow> Tick) \<Rightarrow> int \<Rightarrow> nat \<Rightarrow> World \<Rightarrow> (nat \<times> World) option"
where
  "pollLoading timeline deadline k w =
     (let w' = emitAll (arrived (timeline k)) w
      in if \<not> isLoading w' \<or> now (timeline k) > deadline
         then Some (k, w')
         else pollLoading timeline deadline (k + 1) w')"

text \<open>
  The host during one call: its event loop and its timers. \<open>events\<close> are the manager's
  events that occur during the wait, each with the time (the value of \<open>Date.now()\<close>) at
  which its listeners run; they are delivered in the order of their times. A timer never
  fires early but may fire late: \<open>lateness host k\<close> is the number of milliseconds by which
  firing \<open>k\<close> of the interval is late.
\<close>

record Host =
  events :: "(int \<times> ManagerEvent) list"
  lateness :: "nat \<Rightarrow> nat"

text \<open>
  \<open>setInterval(callback, period)\<close>, called at time \<open>start\<close>: the first firing is due \<open>period\<close>
  milliseconds after the call and every later one \<open>period\<close> milliseconds after the firing
  before it. Firing \<open>k\<close> finds the events that occurred after the previous firing (after the
  call, for the first) and no later than itself.
\<close>

fun firingTime :: "int \<Rightarrow> int \<Rightarrow> (nat \<Rightarrow> nat) \<Rightarrow> nat \<Rightarrow> int" where
  "firingTime period start late 0 = start + period + int (late 0)"
| "firingTime period start late (Suc k) =
     firingTime period start late k + period + int (late (Suc k))"

definition eventsBetween :: "Host \<Rightarrow> int \<Rightarrow> int \<Rightarrow> ManagerEvent list" where
  "eventsBetween host since till =
     map snd (filter (\<lambda>(t, ev). since < t \<and> t \<le> till) (sort_key fst (events host)))"

definition setInterval :: "int \<Rightarrow> int \<Rightarrow> Host \<Rightarrow> nat \<Rightarrow> Tick" where
  "setInterval period start host k =
     (let previous = (case k of 0 \<Rightarrow> start
                      | Suc i \<Rightarrow> firingTime period start (lateness host) i);
          t = firingTime period start (lateness host) k
      in \<lparr>arrived = eventsBetween host previous t, now = t\<rparr>)"

text \<open>
  \<open>start\<close> is the value of \<open>Date.now()\<close> on line 95, and the interval of line 97 is set at
  the same moment with the period of line 102. The first component of the result is
  \<open>None\<close> when the guard of line 94 skipped the wait, and the index of the last firing
  otherwise.
\<close>

definition waitForLoading ::
  "int \<Rightarrow> Host \<Rightarrow> World \<Rightarrow> (nat option \<times> World) option"
where
  "waitForLoading start host w =
     (if isLoading w
      then (let deadline = start + timeoutMs;
                interval = setInterval pollIntervalMs start host
            in case pollLoading interval deadline 0 w of
                 None \<Rightarrow> None
               | Some (k, w') \<Rightarrow> Some (Some k, w'))
      else Some (None, w))"

definition getChildren ::
  "BuildTreeItem option \<Rightarrow> int \<Rightarrow> Host \<Rightarrow> BuildManager \<Rightarrow> World
     \<Rightarrow> (BuildTreeItem list \<times> World) option"
where
  "getChildren element start host mgr w =
     (case element of
        Some e \<Rightarrow> Some ([], w)
      | None \<Rightarrow>
          (case waitForLoading start host w of
             None \<Rightarrow> None
           | Some (k, w') \<Rightarrow> Some (getSchemes mgr w')))"

definition getTreeItem :: "BuildTreeItem \<Rightarrow> World \<Rightarrow> BuildTreeItem \<times> World" where
  "getTreeItem element w = (element, w)"

subsection \<open>The events delivered during a wait\<close>

text \<open>
  \<open>worldAfter timeline w n\<close> is the world \<open>w\<close> after the events of the first \<open>n\<close> firings
  have been delivered and nothing else has happened: firing \<open>k\<close> reads the flag in
  \<open>worldAfter timeline w (Suc k)\<close>.
\<close>

fun worldAfter :: "(nat \<Rightarrow> Tick) \<Rightarrow> World \<Rightarrow> nat \<Rightarrow> World" where
  "worldAfter timeline w 0 = w"
| "worldAfter timeline w (Suc n) = emitAll (arrived (timeline n)) (worldAfter timeline w n)"

subsection \<open>Times\<close>

text \<open>
  \<open>pollTime start host k\<close> is the clock reading of poll \<open>k\<close> of a wait begun at \<open>start\<close>, and
  \<open>loadingAt start host w T\<close> the value of the flag at time \<open>T\<close>, when it was \<open>isLoading w\<close> at
  \<open>start\<close>: the value the listeners of the events that occurred since then have given it.
  \<open>waitEndedAt\<close> is the time at which the wait of a root call ends (\<open>start\<close> itself when
  there is no wait) and \<open>resolvedAt\<close> the time at which the promise of \<open>getChildren\<close>
  resolves: at once for a defined node, and for the root when the fetch that follows the
  wait has settled. \<open>None\<close> is a wait that never ends.
\<close>

definition pollTime :: "int \<Rightarrow> Host \<Rightarrow> nat \<Rightarrow> int" where
  "pollTime start host k = now (setInterval pollIntervalMs start host k)"

definition loadingAt :: "int \<Rightarrow> Host \<Rightarrow> World \<Rightarrow> int \<Rightarrow> bool" where
  "loadingAt start host w T = isLoading (emitAll (eventsBetween host start T) w)"

definition waitEndedAt :: "int \<Rightarrow> Host \<Rightarrow> World \<Rightarrow> int option" where
  "waitEndedAt start host w =
     (case waitForLoading start host w of
        None \<Rightarrow> None
      | Some (None, w') \<Rightarrow> Some start
      | Some (Some k, w') \<Rightarrow> Some (pollTime start host k))"

definition resolvedAt ::
  "BuildTreeItem option \<Rightarrow> int \<Rightarrow> Host \<Rightarrow> BuildManager \<Rightarrow> World \<Rightarrow> int option"
where
  "resolvedAt element start host mgr w =
     (case element of
        Some e \<Rightarrow> Some start
      | None \<Rightarrow>
          (case waitEndedAt start host w of
             None \<Rightarrow> None
           | Some t \<Rightarrow> Some (t + int (fetchMs mgr))))"

subsection \<open>Sequences of calls\<close>

text \<open>
  The manager emits events and the host calls the provider's methods, in any order. A call
  that never settles (a wait no firing ends) leaves no world behind.
\<close>

datatype Call =
    Emit ManagerEvent
  | GetChildren "BuildTreeItem option" int Host BuildManager
  | GetTreeItem BuildTreeItem
  | GetSchemes BuildManager

fun perform :: "Call \<Rightarrow> World \<Rightarrow> World option" where
  "perform (Emit ev) w = Some (emit ev w)"
| "perform (GetChildren element start host mgr) w =
     map_option snd (getChildren element start host mgr w)"
| "perform (GetTreeItem element) w = Some (snd (getTreeItem element w))"
| "perform (GetSchemes mgr) w = Some (snd (getSchemes mgr w))"

fun performAll :: "Call list \<Rightarrow> World \<Rightarrow> World option" where
  "performAll [] w = Some w"
| "performAll (c # cs) w =
     (case perform c w of None \<Rightarrow> None | Some w' \<Rightarrow> performAll cs w')"

subsection \<open>Example inputs\<close>

text \<open>
  The scenario of the specification: the schemes \<open>App\<close> and \<open>AppTests\<close>, the first the default
  for building and running, the second the default for testing.
\<close>

definition appSchemes :: "XcodeScheme list" where
  "appSchemes = [\<lparr>name = ascii ''App''\<rparr>, \<lparr>name = ascii ''AppTests''\<rparr>]"

definition appManager :: BuildManager where
  "appManager =
     \<lparr>fetchMs = 0,
      meanwhile = [],
      outcome = Inr appSchemes,
      defaultSchemeForBuild = Some (ascii ''App''),
      defaultSchemeForTesting = Some (ascii ''AppTests''),
      isSchemeRunning = (\<lambda>n. n = ascii ''App'')\<rparr>"

text \<open>One scheme that is the default for building and for testing.\<close>

definition soloSchemes :: "XcodeScheme list" where
  "soloSchemes = [\<lparr>name = ascii ''App''\<rparr>]"

definition soloManager :: BuildManager where
  "soloManager =
     \<lparr>fetchMs = 0,
      meanwhile = [],
      outcome = Inr soloSchemes,
      defaultSchemeForBuild = Some (ascii ''App''),
      defaultSchemeForTesting = Some (ascii ''App''),
      isSchemeRunning = (\<lambda>n. False)\<rparr>"

text \<open>A manager whose fetch rejects, and one that has no scheme.\<close>

definition fetchError :: js_error where
  "fetchError = Error (ascii ''xcodebuild failed'')"

definition failingManager :: BuildManager where
  "failingManager =
     \<lparr>fetchMs = 0,
      meanwhile = [],
      outcome = Inl fetchError,
      defaultSchemeForBuild = None,
      defaultSchemeForTesting = None,
      isSchemeRunning = (\<lambda>n. False)\<rparr>"

definition emptyManager :: BuildManager where
  "emptyManager =
     \<lparr>fetchMs = 0,
      meanwhile = [],
      outcome = Inr [],
      defaultSchemeForBuild = None,
      defaultSchemeForTesting = None,
      isSchemeRunning = (\<lambda>n. False)\<rparr>"

text \<open>Constructor options for the scheme \<open>App\<close>, idle, with the two default flags given.\<close>

definition appOptions :: "bool \<Rightarrow> bool \<Rightarrow> BuildTreeItemOptions" where
  "appOptions isDefaultBuild isDefaultTesting =
     \<lparr>opt_scheme = ascii ''App'',
      opt_isDefaultBuild = isDefaultBuild,
      opt_isDefaultTesting = isDefaultTesting,
      opt_isSchemeRunning = False,
      opt_collapsibleState = None_state,
      opt_provider = This\<rparr>"

text \<open>Events of the manager; the last one has no listener in this file.\<close>

definition refreshStarted :: ManagerEvent where
  "refreshStarted = \<lparr>eventName = ascii ''refreshSchemesStarted'', eventArgs = []\<rparr>"

definition refreshCompleted :: ManagerEvent where
  "refreshCompleted = \<lparr>eventName = ascii ''refreshSchemesCompleted'', eventArgs = []\<rparr>"

definition refreshFailed :: ManagerEvent where
  "refreshFailed = \<lparr>eventName = ascii ''refreshSchemesFailed'', eventArgs = []\<rparr>"

definition buildDefaultUpdated :: ManagerEvent where
  "buildDefaultUpdated =
     \<lparr>eventName = ascii ''defaultSchemeForBuildUpdated'',
      eventArgs = [JSString (ascii ''App'')]\<rparr>"

definition unrelatedEvent :: ManagerEvent where
  "unrelatedEvent = \<lparr>eventName = ascii ''unrelated'', eventArgs = []\<rparr>"

text \<open>The world after a refresh has started, and the world after a render without schemes.\<close>

definition loadingWorld :: World where
  "loadingWorld = emit refreshStarted constructed"

definition flaggedWorld :: World where
  "flaggedWorld = snd (getSchemes emptyManager constructed)"

text \<open>The manager of the scenario with a fetch that takes half a second.\<close>

definition slowManager :: BuildManager where
  "slowManager = appManager\<lparr>fetchMs := 500\<rparr>"

text \<open>
  Hosts of a wait that begins at time 0. On the first four the timer is on time. On
  \<open>silentHost\<close> nothing happens; on \<open>completingHost\<close> the refresh completes after 250 ms and
  on \<open>earlyHost\<close> after 50 ms; on \<open>raceHost\<close> it completes after 50 ms, a new refresh starts
  after 70 ms and completes after 250 ms.
\<close>

definition silentHost :: Host where
  "silentHost = \<lparr>events = [], lateness = (\<lambda>k. 0)\<rparr>"

definition completingHost :: Host where
  "completingHost = \<lparr>events = [(250, refreshCompleted)], lateness = (\<lambda>k. 0)\<rparr>"

definition earlyHost :: Host where
  "earlyHost = \<lparr>events = [(50, refreshCompleted)], lateness = (\<lambda>k. 0)\<rparr>"

definition raceHost :: Host where
  "raceHost =
     \<lparr>events = [(50, refreshCompleted), (70, refreshStarted), (250, refreshCompleted)],
      lateness = (\<lambda>k. 0)\<rparr>"

text \<open>
  On \<open>lateHost\<close> the refresh completes after 101 ms and the second firing is 2 ms late (the
  polls are at 100 ms and 202 ms); on \<open>lateDeadlineHost\<close> nothing happens and the firing
  that is due at 10 100 ms is 50 ms late.
\<close>

definition lateHost :: Host where
  "lateHost =
     \<lparr>events = [(101, refreshCompleted)], lateness = (\<lambda>k. if k = 1 then 2 else 0)\<rparr>"

definition lateDeadlineHost :: Host where
  "lateDeadlineHost = \<lparr>events = [], lateness = (\<lambda>k. if k = 100 then 50 else 0)\<rparr>"

section \<open>Auxiliary facts\<close>

subsection \<open>Events\<close>

lemma emit_started:
  "eventName ev = ascii ''refreshSchemesStarted'' \<Longrightarrow>
   emit ev w = w\<lparr>isLoading := True, fired := fired w @ [Null]\<rparr>"
  by (simp add: emit_def listeners_def updateView_def ascii_def)

lemma emit_completed:
  "eventName ev = ascii ''refreshSchemesCompleted'' \<Longrightarrow>
   emit ev w = w\<lparr>isLoading := False, fired := fired w @ [Null]\<rparr>"
  by (simp add: emit_def listeners_def updateView_def ascii_def)

lemma emit_failed:
  "eventName ev = ascii ''refreshSchemesFailed'' \<Longrightarrow>
   emit ev w = w\<lparr>isLoading := False, fired := fired w @ [Null]\<rparr>"
  by (simp add: emit_def listeners_def updateView_def ascii_def)

lemma emit_defaultBuild:
  "eventName ev = ascii ''defaultSchemeForBuildUpdated'' \<Longrightarrow>
   emit ev w = w\<lparr>fired := fired w @ [Null]\<rparr>"
  by (simp add: emit_def listeners_def updateView_def ascii_def)

lemma emit_defaultTesting:
  "eventName ev = ascii ''defaultSchemeForTestingUpdated'' \<Longrightarrow>
   emit ev w = w\<lparr>fired := fired w @ [Null]\<rparr>"
  by (simp add: emit_def listeners_def updateView_def ascii_def)

lemma emit_other:
  "eventName ev \<notin> fst ` set listeners \<Longrightarrow> emit ev w = w"
  by (auto simp add: emit_def listeners_def)

lemma emit_unrelated:
  "eventName ev \<notin> {ascii ''refreshSchemesStarted'', ascii ''refreshSchemesCompleted'',
                    ascii ''refreshSchemesFailed''} \<Longrightarrow>
   isLoading (emit ev w) = isLoading w"
  by (auto simp add: emit_def listeners_def updateView_def)

lemma emit_frame:
  "errorLog (emit ev w) = errorLog w \<and> executed (emit ev w) = executed w \<and>
   contextKeys (emit ev w) = contextKeys w \<and> managerCalls (emit ev w) = managerCalls w"
  by (simp add: emit_def listeners_def updateView_def)

lemma emitAll_frame:
  "errorLog (emitAll evs w) = errorLog w \<and> executed (emitAll evs w) = executed w \<and>
   contextKeys (emitAll evs w) = contextKeys w \<and> managerCalls (emitAll evs w) = managerCalls w"
  by (induction evs arbitrary: w) (simp_all add: emit_frame)

lemma runListeners_managerCalls:
  "\<forall>(n, h) \<in> set ls. \<forall>args w. h args (w\<lparr>managerCalls := c\<rparr>) = (h args w)\<lparr>managerCalls := c\<rparr> \<Longrightarrow>
   runListeners ls ev (w\<lparr>managerCalls := c\<rparr>) = (runListeners ls ev w)\<lparr>managerCalls := c\<rparr>"
  by (induction ls arbitrary: w) auto

lemma emit_managerCalls:
  "emit ev (w\<lparr>managerCalls := c\<rparr>) = (emit ev w)\<lparr>managerCalls := c\<rparr>"
  unfolding emit_def
  by (rule runListeners_managerCalls) (simp add: listeners_def updateView_def)

lemma emitAll_managerCalls:
  "emitAll evs (w\<lparr>managerCalls := c\<rparr>) = (emitAll evs w)\<lparr>managerCalls := c\<rparr>"
  by (induction evs arbitrary: w) (simp_all add: emit_managerCalls)

subsection \<open>The polling loop\<close>

lemma pollLoading_stop:
  "\<not> isLoading (emitAll (arrived (timeline k)) w) \<or> deadline < now (timeline k) \<Longrightarrow>
   pollLoading timeline deadline k w = Some (k, emitAll (arrived (timeline k)) w)"
  by (subst pollLoading.simps) (simp add: Let_def)

lemma pollLoading_continue:
  "isLoading (emitAll (arrived (timeline k)) w) \<Longrightarrow> now (timeline k) \<le> deadline \<Longrightarrow>
   pollLoading timeline deadline k w =
     pollLoading timeline deadline (Suc k) (emitAll (arrived (timeline k)) w)"
  by (subst pollLoading.simps) (simp add: Let_def)

lemma pollLoading_first:
  assumes "\<forall>i. k \<le> i \<and> i < j \<longrightarrow>
             isLoading (worldAfter timeline w (Suc i)) \<and> now (timeline i) \<le> deadline"
    and "\<not> isLoading (worldAfter timeline w (Suc j)) \<or> deadline < now (timeline j)"
    and "k \<le> j"
  shows "pollLoading timeline deadline k (worldAfter timeline w k) =
           Some (j, worldAfter timeline w (Suc j))"
  using assms
proof (induction "j - k" arbitrary: k)
  case 0
  then have "k = j" by simp
  with 0 show ?case by (simp add: pollLoading_stop)
next
  case (Suc d)
  then have lt: "k < j" by simp
  with Suc.prems have go: "isLoading (worldAfter timeline w (Suc k))" "now (timeline k) \<le> deadline"
    by auto
  have "pollLoading timeline deadline (Suc k) (worldAfter timeline w (Suc k)) =
          Some (j, worldAfter timeline w (Suc j))"
  proof (rule Suc.hyps(1))
    show "d = j - Suc k" using Suc.hyps(2) by simp
    show "\<forall>i. Suc k \<le> i \<and> i < j \<longrightarrow>
            isLoading (worldAfter timeline w (Suc i)) \<and> now (timeline i) \<le> deadline"
      using Suc.prems(1) by simp
    show "\<not> isLoading (worldAfter timeline w (Suc j)) \<or> deadline < now (timeline j)"
      by (rule Suc.prems(2))
    show "Suc k \<le> j" using lt by simp
  qed
  with go show ?case by (simp add: pollLoading_continue)
qed

lemma pollLoading_result_aux:
  assumes ret: "pollLoading timeline deadline k w = Some y"
  shows "k \<le> fst y \<and> (\<not> isLoading (snd y) \<or> deadline < now (timeline (fst y))) \<and>
   (\<forall>w0. w = worldAfter timeline w0 k \<longrightarrow> snd y = worldAfter timeline w0 (Suc (fst y)))"
proof (rule pollLoading.raw_induct [where P = "\<lambda>timeline deadline k w y.
    k \<le> fst y \<and> (\<not> isLoading (snd y) \<or> deadline < now (timeline (fst y))) \<and>
    (\<forall>w0. w = worldAfter timeline w0 k \<longrightarrow> snd y = worldAfter timeline w0 (Suc (fst y)))",
    OF _ ret], goal_cases)
  case (1 f timeline deadline k w y)
  show ?case
  proof (cases "\<not> isLoading (emitAll (arrived (timeline k)) w) \<or> deadline < now (timeline k)")
    case True
    with 1(2) have "y = (k, emitAll (arrived (timeline k)) w)"
      by (auto simp add: Let_def)
    with True show ?thesis by auto
  next
    case False
    with 1(2) have rec: "f timeline deadline (k + 1) (emitAll (arrived (timeline k)) w) = Some y"
      by (auto simp add: Let_def)
    from 1(1)[OF rec] show ?thesis by auto
  qed
qed

lemma pollLoading_result:
  "pollLoading timeline deadline k w = Some (j, w') \<Longrightarrow>
   k \<le> j \<and> (\<not> isLoading w' \<or> deadline < now (timeline j))"
  using pollLoading_result_aux [of timeline deadline k w "(j, w')"] by simp

lemma pollLoading_world:
  "pollLoading timeline deadline 0 w = Some (j, w') \<Longrightarrow> w' = worldAfter timeline w (Suc j)"
  using pollLoading_result_aux [of timeline deadline 0 w "(j, w')"] by simp

lemma pollLoading_terminates:
  "deadline < now (timeline j) \<Longrightarrow> k \<le> j \<Longrightarrow>
   \<exists>i w'. i \<le> j \<and> pollLoading timeline deadline k w = Some (i, w')"
proof (induction "j - k" arbitrary: k w)
  case 0
  then have "k = j" by simp
  with 0 show ?case by (auto simp add: pollLoading_stop)
next
  case (Suc d)
  show ?case
  proof (cases "\<not> isLoading (emitAll (arrived (timeline k)) w) \<or> deadline < now (timeline k)")
    case True
    then show ?thesis using Suc.prems by (auto simp add: pollLoading_stop)
  next
    case False
    have "\<exists>i w'. i \<le> j \<and>
            pollLoading timeline deadline (Suc k) (emitAll (arrived (timeline k)) w) = Some (i, w')"
      using Suc by (intro Suc.hyps(1)) auto
    with False show ?thesis by (simp add: pollLoading_continue)
  qed
qed

lemma pollLoading_earlier:
  assumes ret: "pollLoading timeline deadline k w = Some y"
  shows "\<forall>w0. w = worldAfter timeline w0 k \<longrightarrow>
           (\<forall>i. k \<le> i \<and> i < fst y \<longrightarrow>
              isLoading (worldAfter timeline w0 (Suc i)) \<and> now (timeline i) \<le> deadline)"
proof (rule pollLoading.raw_induct [where P = "\<lambda>timeline deadline k w y.
    \<forall>w0. w = worldAfter timeline w0 k \<longrightarrow>
      (\<forall>i. k \<le> i \<and> i < fst y \<longrightarrow>
         isLoading (worldAfter timeline w0 (Suc i)) \<and> now (timeline i) \<le> deadline)",
    OF _ ret], goal_cases)
  case (1 f timeline deadline k w y)
  show ?case
  proof (cases "\<not> isLoading (emitAll (arrived (timeline k)) w) \<or> deadline < now (timeline k)")
    case True
    with 1(2) have "fst y = k"
      by (auto simp add: Let_def)
    then show ?thesis by auto
  next
    case False
    with 1(2) have rec: "f timeline deadline (k + 1) (emitAll (arrived (timeline k)) w) = Some y"
      by (auto simp add: Let_def)
    show ?thesis
    proof (intro allI impI)
      fix w0 i
      assume w: "w = worldAfter timeline w0 k" and i: "k \<le> i \<and> i < fst y"
      show "isLoading (worldAfter timeline w0 (Suc i)) \<and> now (timeline i) \<le> deadline"
      proof (cases "i = k")
        case True
        with False w show ?thesis by simp
      next
        case False
        with i have "k + 1 \<le> i \<and> i < fst y" by simp
        moreover have "emitAll (arrived (timeline k)) w = worldAfter timeline w0 (k + 1)"
          using w by simp
        ultimately show ?thesis using 1(1) [OF rec] by blast
      qed
    qed
  qed
qed

subsection \<open>The timer\<close>

lemma pollTime_0:
  "pollTime start host 0 = start + pollIntervalMs + int (lateness host 0)"
  by (simp add: pollTime_def setInterval_def Let_def)

lemma pollTime_Suc:
  "pollTime start host (Suc k) =
     pollTime start host k + pollIntervalMs + int (lateness host (Suc k))"
  by (simp add: pollTime_def setInterval_def Let_def)

lemma pollTime_lower:
  "start + pollIntervalMs * (int k + 1) \<le> pollTime start host k"
proof (induction k)
  case 0
  show ?case by (simp add: pollTime_0)
next
  case (Suc k)
  then show ?case by (simp add: pollTime_Suc algebra_simps)
qed

lemma pollTime_after_start:
  "start < pollTime start host k"
  using pollTime_lower [of start k host] by (simp add: pollIntervalMs_def)

lemma pollTime_step:
  "pollTime start host k \<le> pollTime start host (Suc k)"
  by (simp add: pollTime_Suc pollIntervalMs_def)

lemma pollTime_onTime:
  "\<forall>i\<le>k. lateness host i = 0 \<Longrightarrow>
   pollTime start host k = start + pollIntervalMs * (int k + 1)"
proof (induction k)
  case 0
  then show ?case by (simp add: pollTime_0)
next
  case (Suc k)
  then show ?case by (simp add: pollTime_Suc algebra_simps)
qed

lemma now_setInterval:
  "now (setInterval pollIntervalMs start host k) = pollTime start host k"
  by (simp add: pollTime_def)

lemma arrived_setInterval:
  "arrived (setInterval pollIntervalMs start host 0) =
     eventsBetween host start (pollTime start host 0)"
  "arrived (setInterval pollIntervalMs start host (Suc k)) =
     eventsBetween host (pollTime start host k) (pollTime start host (Suc k))"
  by (simp_all add: pollTime_def setInterval_def Let_def)

lemma first_poll_from:
  assumes "start < T"
  shows "\<exists>j. (\<forall>i<j. pollTime start host i < T) \<and> T \<le> pollTime start host j
           \<and> pollTime start host j < T + pollIntervalMs + int (lateness host j)"
proof -
  have "T \<le> pollTime start host (nat (T - start))"
    using pollTime_lower [of start "nat (T - start)" host] assms
    by (simp add: pollIntervalMs_def)
  then have "\<exists>j. T \<le> pollTime start host j" ..
  then obtain j where j: "T \<le> pollTime start host j"
    and least: "\<forall>i<j. \<not> T \<le> pollTime start host i"
    using exists_least_iff [of "\<lambda>j. T \<le> pollTime start host j"] by blast
  have "pollTime start host j < T + pollIntervalMs + int (lateness host j)"
  proof (cases j)
    case 0
    with assms show ?thesis by (simp add: pollTime_0)
  next
    case (Suc i)
    with least have "pollTime start host i < T" by auto
    with Suc show ?thesis by (simp add: pollTime_Suc)
  qed
  with j least show ?thesis by (intro exI [of _ j]) auto
qed

subsection \<open>The events between two instants\<close>

lemma emitAll_append:
  "emitAll (xs @ ys) w = emitAll ys (emitAll xs w)"
  by (induction xs arbitrary: w) simp_all

lemma filter_window_split:
  fixes xs :: "(int \<times> 'a) list"
  assumes "sorted (map fst xs)" and "a \<le> b" and "b \<le> c"
  shows "filter (\<lambda>(t, ev). a < t \<and> t \<le> b) xs @ filter (\<lambda>(t, ev). b < t \<and> t \<le> c) xs =
         filter (\<lambda>(t, ev). a < t \<and> t \<le> c) xs"
  using assms
proof (induction xs)
  case Nil
  show ?case by simp
next
  case (Cons x xs)
  obtain t ev where x: "x = (t, ev)" by (cases x)
  from Cons.prems have later: "\<forall>y\<in>set xs. t \<le> fst y" and sorted: "sorted (map fst xs)"
    by (auto simp add: x)
  from Cons.IH [OF sorted Cons.prems(2,3)]
  have IH: "filter (\<lambda>(t, ev). a < t \<and> t \<le> b) xs @ filter (\<lambda>(t, ev). b < t \<and> t \<le> c) xs =
         filter (\<lambda>(t, ev). a < t \<and> t \<le> c) xs" .
  show ?case
  proof (cases "b < t")
    case False
    with IH Cons.prems show ?thesis by (simp add: x)
  next
    case True
    with later have "filter (\<lambda>(t, ev). a < t \<and> t \<le> b) xs = []"
      by (auto simp add: filter_empty_conv)
    with IH True Cons.prems show ?thesis by (simp add: x)
  qed
qed

lemma eventsBetween_split:
  "a \<le> b \<Longrightarrow> b \<le> c \<Longrightarrow>
   eventsBetween host a b @ eventsBetween host b c = eventsBetween host a c"
  unfolding eventsBetween_def map_append [symmetric]
  by (simp add: filter_window_split)

lemma eventsBetween_empty:
  "till \<le> since \<Longrightarrow> eventsBetween host since till = []"
  by (auto simp add: eventsBetween_def filter_empty_conv)

lemma worldAfter_setInterval:
  "worldAfter (setInterval pollIntervalMs start host) w (Suc k) =
     emitAll (eventsBetween host start (pollTime start host k)) w"
proof (induction k)
  case 0
  show ?case by (simp add: arrived_setInterval)
next
  case (Suc k)
  have "eventsBetween host start (pollTime start host k) @
          eventsBetween host (pollTime start host k) (pollTime start host (Suc k)) =
        eventsBetween host start (pollTime start host (Suc k))"
    using pollTime_after_start [of start host k] pollTime_step [of start host k]
    by (intro eventsBetween_split) simp_all
  then have "emitAll (eventsBetween host start (pollTime start host (Suc k))) w =
      emitAll (eventsBetween host (pollTime start host k) (pollTime start host (Suc k)))
        (emitAll (eventsBetween host start (pollTime start host k)) w)"
    by (simp add: emitAll_append [symmetric])
  with Suc show ?case by (simp add: arrived_setInterval)
qed

lemma loadingAt_poll:
  "isLoading (worldAfter (setInterval pollIntervalMs start host) w (Suc k)) =
     loadingAt start host w (pollTime start host k)"
  by (simp add: worldAfter_setInterval loadingAt_def del: worldAfter.simps)

lemma loadingAt_start:
  "T \<le> start \<Longrightarrow> loadingAt start host w T = isLoading w"
  by (simp add: loadingAt_def eventsBetween_empty)

subsection \<open>The wait\<close>

lemma worldAfter_frame:
  "errorLog (worldAfter timeline w n) = errorLog w \<and>
   executed (worldAfter timeline w n) = executed w \<and>
   contextKeys (worldAfter timeline w n) = contextKeys w \<and>
   managerCalls (worldAfter timeline w n) = managerCalls w"
  by (induction n) (simp_all add: emitAll_frame)

lemma waitForLoading_exact:
  "waitForLoading start host w = Some (k, w1) \<Longrightarrow>
   w1 = worldAfter (setInterval pollIntervalMs start host) w
          (case k of None \<Rightarrow> 0 | Some j \<Rightarrow> Suc j)"
proof (cases "isLoading w")
  case False
  assume "waitForLoading start host w = Some (k, w1)"
  with False show ?thesis by (auto simp add: waitForLoading_def)
next
  case True
  assume "waitForLoading start host w = Some (k, w1)"
  with True obtain j where k: "k = Some j"
    and poll: "pollLoading (setInterval pollIntervalMs start host) (start + timeoutMs) 0 w =
                 Some (j, w1)"
    by (auto simp add: waitForLoading_def Let_def split: option.splits)
  from poll have "w1 = worldAfter (setInterval pollIntervalMs start host) w (Suc j)"
    by (rule pollLoading_world)
  with k show ?thesis by simp
qed

lemma waitForLoading_world:
  assumes "waitForLoading start host w = Some (k, w1)"
  shows "\<exists>n. w1 = worldAfter (setInterval pollIntervalMs start host) w n"
  using waitForLoading_exact [OF assms] ..

lemma waitForLoading_skip:
  "\<not> isLoading w \<Longrightarrow> waitForLoading start host w = Some (None, w)"
  by (simp add: waitForLoading_def)

lemma waitForLoading_at:
  assumes loading: "isLoading w"
    and before: "\<forall>i<j. loadingAt start host w (pollTime start host i) \<and>
                        pollTime start host i \<le> start + timeoutMs"
    and stop: "\<not> loadingAt start host w (pollTime start host j) \<or>
               start + timeoutMs < pollTime start host j"
  shows "waitForLoading start host w =
           Some (Some j, emitAll (eventsBetween host start (pollTime start host j)) w)"
proof -
  have "pollLoading (setInterval pollIntervalMs start host) (start + timeoutMs) 0
          (worldAfter (setInterval pollIntervalMs start host) w 0) =
        Some (j, worldAfter (setInterval pollIntervalMs start host) w (Suc j))"
    by (rule pollLoading_first)
      (use before stop in \<open>simp_all add: loadingAt_poll now_setInterval del: worldAfter.simps\<close>)
  then show ?thesis
    using loading
    by (simp add: waitForLoading_def Let_def worldAfter_setInterval del: worldAfter.simps(2))
qed

lemma waitForLoading_ends:
  assumes loading: "isLoading w"
  shows "\<exists>j. waitForLoading start host w =
               Some (Some j, emitAll (eventsBetween host start (pollTime start host j)) w)
           \<and> (\<forall>i<j. loadingAt start host w (pollTime start host i)
                     \<and> pollTime start host i \<le> start + timeoutMs)
           \<and> (\<not> loadingAt start host w (pollTime start host j)
                \<or> start + timeoutMs < pollTime start host j)
           \<and> pollTime start host j
                \<le> start + timeoutMs + pollIntervalMs + int (lateness host j)"
proof -
  have late: "start + timeoutMs < now (setInterval pollIntervalMs start host 100)"
    unfolding now_setInterval
    using pollTime_lower [of start 100 host]
    by (simp add: timeoutMs_def pollIntervalMs_def)
  from pollLoading_terminates [where deadline = "start + timeoutMs"
      and timeline = "setInterval pollIntervalMs start host" and j = 100 and k = 0 and w = w] late
  obtain j w1 where
    poll: "pollLoading (setInterval pollIntervalMs start host) (start + timeoutMs) 0 w =
             Some (j, w1)"
    by auto
  from pollLoading_world [OF poll]
  have w1: "w1 = emitAll (eventsBetween host start (pollTime start host j)) w"
    by (simp add: worldAfter_setInterval del: worldAfter.simps)
  from pollLoading_earlier [OF poll]
  have before: "\<forall>i<j. loadingAt start host w (pollTime start host i)
                     \<and> pollTime start host i \<le> start + timeoutMs"
    by (simp add: loadingAt_poll now_setInterval del: worldAfter.simps(2))
  from pollLoading_result [OF poll]
  have stop: "\<not> loadingAt start host w (pollTime start host j)
                \<or> start + timeoutMs < pollTime start host j"
    by (simp add: w1 loadingAt_def now_setInterval)
  have bound: "pollTime start host j
                \<le> start + timeoutMs + pollIntervalMs + int (lateness host j)"
  proof (cases j)
    case 0
    then show ?thesis by (simp add: pollTime_0 timeoutMs_def)
  next
    case (Suc i)
    with before have "pollTime start host i \<le> start + timeoutMs" by simp
    with Suc show ?thesis by (simp add: pollTime_Suc)
  qed
  from poll loading have "waitForLoading start host w = Some (Some j, w1)"
    by (simp add: waitForLoading_def Let_def)
  with w1 before stop bound show ?thesis by blast
qed

lemma waitForLoading_terminates:
  "\<exists>k w1. waitForLoading start host w = Some (k, w1)"
proof (cases "isLoading w")
  case False
  then show ?thesis by (simp add: waitForLoading_def)
next
  case True
  from waitForLoading_ends [OF this, of start host] show ?thesis by blast
qed

lemma getChildren_root:
  "waitForLoading start host w = Some (k, w1) \<Longrightarrow>
   getChildren None start host mgr w = Some (getSchemes mgr w1)"
  by (simp add: getChildren_def)

lemma waitEndedAt_poll:
  "waitForLoading start host w = Some (Some j, w1) \<Longrightarrow>
   waitEndedAt start host w = Some (pollTime start host j) \<and>
   resolvedAt None start host mgr w = Some (pollTime start host j + int (fetchMs mgr))"
  by (simp add: waitEndedAt_def resolvedAt_def)

subsection \<open>getSchemes\<close>

lemma executeCommand_noSchemes:
  "executeCommand (command noSchemesCommand) (arguments noSchemesCommand) w =
     w\<lparr>executed := executed w @ [noSchemesCommand],
       contextKeys := (contextKeys w)(ascii ''sweetpad.build.noSchemes'' \<mapsto> JSBoolean True)\<rparr>"
  by (simp add: executeCommand_def noSchemesCommand_def)

lemma logger_error_loading:
  "isLoading (logger_error msg err w) = isLoading w \<and>
   fired (logger_error msg err w) = fired w"
  by (simp add: logger_error_def)

lemma getSchemes_nodes:
  "fst (getSchemes mgr w) =
     map (schemeItem mgr) (case outcome mgr of Inl error \<Rightarrow> [] | Inr fetched \<Rightarrow> fetched)"
  by (simp add: getSchemes_def Let_def split: sum.splits)

lemma getSchemes_loading:
  "isLoading (snd (getSchemes mgr w)) = isLoading (emitAll (meanwhile mgr) w) \<and>
   fired (snd (getSchemes mgr w)) = fired (emitAll (meanwhile mgr) w)"
proof (cases "outcome mgr")
  case (Inl err)
  then show ?thesis
    by (simp add: getSchemes_def Let_def executeCommand_noSchemes logger_error_loading
        emitAll_managerCalls)
next
  case (Inr fetched)
  then show ?thesis
    by (simp add: getSchemes_def Let_def executeCommand_noSchemes emitAll_managerCalls)
qed

lemma getSchemes_failure:
  "outcome mgr = Inl err \<Longrightarrow>
   fst (getSchemes mgr w) = [] \<and>
   errorLog (snd (getSchemes mgr w)) = errorLog w @ [(ascii ''Failed to get schemes'', err)] \<and>
   executed (snd (getSchemes mgr w)) = executed w @ [noSchemesCommand] \<and>
   contextKeys (snd (getSchemes mgr w)) =
     (contextKeys w)(ascii ''sweetpad.build.noSchemes'' \<mapsto> JSBoolean True)"
  by (simp add: getSchemes_def Let_def executeCommand_def logger_error_def noSchemesCommand_def
      emitAll_frame)

lemma getSchemes_empty:
  "outcome mgr = Inr [] \<Longrightarrow>
   fst (getSchemes mgr w) = [] \<and>
   errorLog (snd (getSchemes mgr w)) = errorLog w \<and>
   executed (snd (getSchemes mgr w)) = executed w @ [noSchemesCommand] \<and>
   contextKeys (snd (getSchemes mgr w)) =
     (contextKeys w)(ascii ''sweetpad.build.noSchemes'' \<mapsto> JSBoolean True)"
  by (simp add: getSchemes_def Let_def executeCommand_def logger_error_def noSchemesCommand_def
      emitAll_frame)

lemma getSchemes_nonempty:
  "outcome mgr = Inr (s # ss) \<Longrightarrow>
   fst (getSchemes mgr w) \<noteq> [] \<and>
   errorLog (snd (getSchemes mgr w)) = errorLog w \<and>
   executed (snd (getSchemes mgr w)) = executed w \<and>
   contextKeys (snd (getSchemes mgr w)) = contextKeys w"
  by (simp add: getSchemes_def Let_def emitAll_frame)

lemma getSchemes_context:
  "executed (snd (getSchemes mgr w)) =
     executed w @ (if fst (getSchemes mgr w) = [] then [noSchemesCommand] else []) \<and>
   contextKeys (snd (getSchemes mgr w)) =
     (if fst (getSchemes mgr w) = []
      then (contextKeys w)(ascii ''sweetpad.build.noSchemes'' \<mapsto> JSBoolean True)
      else contextKeys w)"
proof (cases "outcome mgr")
  case (Inl err)
  then show ?thesis using getSchemes_failure [of mgr err w] by simp
next
  case (Inr fetched)
  then show ?thesis
    using getSchemes_empty [of mgr w] getSchemes_nonempty [of mgr _ _ w]
    by (cases fetched) simp_all
qed

subsection \<open>Items\<close>

lemma schemeItem_fields:
  "label (schemeItem mgr s) = name s \<and> scheme (schemeItem mgr s) = name s \<and>
   collapsibleState (schemeItem mgr s) = None_state"
  by (simp add: schemeItem_def BuildTreeItem_constructor_def TreeItem_constructor_def Let_def)

lemma buildDescription_cases:
  "buildDescription b t =
     (if b then (if t then ascii '' '' @ [checkMark] @ ascii '' (t)'' else ascii '' '' @ [checkMark])
      else (if t then ascii '' (t)'' else []))"
  by (simp add: buildDescription_def)

lemma schemeItem_description:
  "description (schemeItem mgr s) =
     (if Some (name s) = defaultSchemeForBuild mgr
      then (if Some (name s) = defaultSchemeForTesting mgr
            then Some (ascii '' '' @ [checkMark] @ ascii '' (t)'')
            else Some (ascii '' '' @ [checkMark]))
      else (if Some (name s) = defaultSchemeForTesting mgr
            then Some (ascii '' (t)'')
            else None))"
  by (simp add: schemeItem_def BuildTreeItem_constructor_def Let_def buildDescription_cases
      ascii_def)

lemma marker_distinct:
  "ascii '' '' @ [checkMark] \<noteq> ascii '' (t)''"
  "ascii '' '' @ [checkMark] @ ascii '' (t)'' \<noteq> ascii '' (t)''"
  "ascii '' '' @ [checkMark] @ ascii '' (t)'' \<noteq> ascii '' '' @ [checkMark]"
  by (simp_all add: ascii_def checkMark_def)

subsection \<open>Calls\<close>

lemma getChildren_loading:
  assumes "getChildren element start host mgr w = Some (nodes, w')"
  shows "case element of
           Some e \<Rightarrow> w' = w
         | None \<Rightarrow>
             (\<exists>k. waitForLoading start host w =
                    Some (k, worldAfter (setInterval pollIntervalMs start host) w
                               (case k of None \<Rightarrow> 0 | Some j \<Rightarrow> Suc j))
                \<and> isLoading w' =
                    isLoading (emitAll (meanwhile mgr)
                      (worldAfter (setInterval pollIntervalMs start host) w
                         (case k of None \<Rightarrow> 0 | Some j \<Rightarrow> Suc j))))"
proof (cases element)
  case (Some e)
  with assms show ?thesis by (simp add: getChildren_def)
next
  case None
  with assms obtain k w1 where wait: "waitForLoading start host w = Some (k, w1)"
    and res: "getSchemes mgr w1 = (nodes, w')"
    by (auto simp add: getChildren_def split: option.splits)
  from waitForLoading_exact [OF wait]
  have w1: "w1 = worldAfter (setInterval pollIntervalMs start host) w
                   (case k of None \<Rightarrow> 0 | Some j \<Rightarrow> Suc j)" .
  from res have "isLoading w' = isLoading (emitAll (meanwhile mgr) w1)"
    using getSchemes_loading [of mgr w1] by simp
  with wait w1 None show ?thesis by auto
qed

lemma getChildren_settled:
  assumes "getChildren None start host mgr w = Some (nodes, w')"
  shows "\<exists>w1. getSchemes mgr w1 = (nodes, w') \<and> errorLog w1 = errorLog w \<and>
           executed w1 = executed w \<and> contextKeys w1 = contextKeys w"
proof -
  from assms obtain k w1 where wait: "waitForLoading start host w = Some (k, w1)"
    and res: "getSchemes mgr w1 = (nodes, w')"
    by (auto simp add: getChildren_def split: option.splits)
  from waitForLoading_world [OF wait] obtain n where
    "w1 = worldAfter (setInterval pollIntervalMs start host) w n" ..
  then have "errorLog w1 = errorLog w" "executed w1 = executed w"
    "contextKeys w1 = contextKeys w"
    by (simp_all add: worldAfter_frame)
  with res show ?thesis by blast
qed

lemma getChildren_resolves:
  "\<exists>r. getChildren None start host mgr w = Some r"
proof -
  from waitForLoading_terminates [of start host w]
  obtain k w1 where "waitForLoading start host w = Some (k, w1)" by blast
  then have "getChildren None start host mgr w = Some (getSchemes mgr w1)"
    by (rule getChildren_root)
  then show ?thesis ..
qed

lemma perform_context:
  assumes "perform c w = Some w'"
  shows "(executed w' = executed w \<and> contextKeys w' = contextKeys w)
       \<or> (executed w' = executed w @ [noSchemesCommand]
          \<and> contextKeys w' =
              (contextKeys w)(ascii ''sweetpad.build.noSchemes'' \<mapsto> JSBoolean True))"
proof (cases c)
  case (Emit ev)
  with assms show ?thesis by (auto simp add: emit_frame)
next
  case (GetTreeItem element)
  with assms show ?thesis by (auto simp add: getTreeItem_def)
next
  case (GetSchemes mgr)
  with assms have "w' = snd (getSchemes mgr w)" by simp
  then show ?thesis using getSchemes_context [of mgr w] by (simp split: if_splits)
next
  case (GetChildren element start host mgr)
  show ?thesis
  proof (cases element)
    case (Some e)
    with GetChildren assms show ?thesis by (simp add: getChildren_def)
  next
    case None
    with GetChildren assms obtain nodes where
      "getChildren None start host mgr w = Some (nodes, w')"
      by auto
    from getChildren_settled [OF this] obtain w1 where
      res: "getSchemes mgr w1 = (nodes, w')" and
      frame: "executed w1 = executed w" "contextKeys w1 = contextKeys w"
      by blast
    from res have "w' = snd (getSchemes mgr w1)" by simp
    then show ?thesis using getSchemes_context [of mgr w1] frame by (simp split: if_splits)
  qed
qed

lemma performAll_context:
  "performAll cs w = Some w' \<Longrightarrow>
   (\<exists>n. executed w' = executed w @ replicate n noSchemesCommand) \<and>
   (contextKeys w (ascii ''sweetpad.build.noSchemes'') = Some (JSBoolean True) \<longrightarrow>
    contextKeys w' (ascii ''sweetpad.build.noSchemes'') = Some (JSBoolean True))"
proof (induction cs arbitrary: w)
  case Nil
  then show ?case by simp
next
  case (Cons c cs)
  then obtain w1 where step: "perform c w = Some w1" and rest: "performAll cs w1 = Some w'"
    by (auto split: option.splits)
  from Cons.IH [OF rest] obtain n where
    n: "executed w' = executed w1 @ replicate n noSchemesCommand" and
    keep: "contextKeys w1 (ascii ''sweetpad.build.noSchemes'') = Some (JSBoolean True) \<longrightarrow>
           contextKeys w' (ascii ''sweetpad.build.noSchemes'') = Some (JSBoolean True)"
    by blast
  from perform_context [OF step] show ?case
  proof
    assume same: "executed w1 = executed w \<and> contextKeys w1 = contextKeys w"
    with n keep show ?thesis by auto
  next
    assume wrote: "executed w1 = executed w @ [noSchemesCommand]
          \<and> contextKeys w1 =
              (contextKeys w)(ascii ''sweetpad.build.noSchemes'' \<mapsto> JSBoolean True)"
    with n have "executed w' = executed w @ replicate (Suc n) noSchemesCommand" by simp
    moreover from wrote keep
    have "contextKeys w' (ascii ''sweetpad.build.noSchemes'') = Some (JSBoolean True)" by simp
    ultimately show ?thesis by blast
  qed
qed

subsection \<open>Timing\<close>

lemma isLoading_loadingWorld:
  "isLoading loadingWorld"
  by (simp add: loadingWorld_def refreshStarted_def emit_started)

lemma emit_refreshCompleted:
  "isLoading (emit refreshCompleted w) = False"
  by (simp add: refreshCompleted_def emit_completed)

lemma emit_refreshStarted:
  "isLoading (emit refreshStarted w) = True"
  by (simp add: refreshStarted_def emit_started)

lemma eventsBetween_silent:
  "eventsBetween silentHost a b = []"
  by (simp add: eventsBetween_def silentHost_def)

lemma eventsBetween_lateDeadline:
  "eventsBetween lateDeadlineHost a b = []"
  by (simp add: eventsBetween_def lateDeadlineHost_def)

lemma worldAfter_silent:
  "worldAfter (setInterval pollIntervalMs start silentHost) w n = w"
  by (induction n) (simp_all add: setInterval_def Let_def eventsBetween_silent)

lemma pollTime_silent:
  "pollTime 0 silentHost k = 100 * (int k + 1)"
  using pollTime_onTime [of k silentHost 0] by (simp add: silentHost_def pollIntervalMs_def)

lemma pollTime_completing:
  "pollTime 0 completingHost k = 100 * (int k + 1)"
  using pollTime_onTime [of k completingHost 0] by (simp add: completingHost_def pollIntervalMs_def)

lemma pollTime_early:
  "pollTime 0 earlyHost k = 100 * (int k + 1)"
  using pollTime_onTime [of k earlyHost 0] by (simp add: earlyHost_def pollIntervalMs_def)

lemma pollTime_race:
  "pollTime 0 raceHost k = 100 * (int k + 1)"
  using pollTime_onTime [of k raceHost 0] by (simp add: raceHost_def pollIntervalMs_def)

lemma pollTime_lateDeadline:
  "k < 100 \<Longrightarrow> pollTime 0 lateDeadlineHost k = 100 * (int k + 1)"
  "pollTime 0 lateDeadlineHost 100 = 10150"
proof -
  show early: "pollTime 0 lateDeadlineHost k = 100 * (int k + 1)" if "k < 100" for k
    using pollTime_onTime [of k lateDeadlineHost 0] that
    by (simp add: lateDeadlineHost_def pollIntervalMs_def)
  have "pollTime 0 lateDeadlineHost (Suc 99) = 10150"
    unfolding pollTime_Suc using early [of 99]
    by (simp add: lateDeadlineHost_def pollIntervalMs_def)
  then show "pollTime 0 lateDeadlineHost 100 = 10150" by simp
qed

lemma pollTime_late:
  "pollTime 0 lateHost 0 = 100" "pollTime 0 lateHost (Suc 0) = 202"
  "pollTime 0 lateHost 1 = 202"
proof -
  show first: "pollTime 0 lateHost 0 = 100"
    by (simp add: pollTime_0 lateHost_def pollIntervalMs_def)
  show second: "pollTime 0 lateHost (Suc 0) = 202"
    unfolding pollTime_Suc first by (simp add: lateHost_def pollIntervalMs_def)
  then show "pollTime 0 lateHost 1 = 202" by simp
qed

lemma loadingAt_silent:
  "loadingAt 0 silentHost loadingWorld T"
  by (simp add: loadingAt_def eventsBetween_silent isLoading_loadingWorld)

lemma loadingAt_lateDeadline:
  "loadingAt 0 lateDeadlineHost loadingWorld T"
  by (simp add: loadingAt_def eventsBetween_lateDeadline isLoading_loadingWorld)

lemma loadingAt_completing:
  "loadingAt 0 completingHost loadingWorld T \<longleftrightarrow> T < 250"
  by (simp add: loadingAt_def eventsBetween_def completingHost_def isLoading_loadingWorld
      emit_refreshCompleted)

lemma loadingAt_early:
  "loadingAt 0 earlyHost loadingWorld T \<longleftrightarrow> T < 50"
  by (simp add: loadingAt_def eventsBetween_def earlyHost_def isLoading_loadingWorld
      emit_refreshCompleted)

lemma loadingAt_late:
  "loadingAt 0 lateHost loadingWorld T \<longleftrightarrow> T < 101"
  by (simp add: loadingAt_def eventsBetween_def lateHost_def isLoading_loadingWorld
      emit_refreshCompleted)

lemma loadingAt_race:
  "loadingAt 0 raceHost loadingWorld T \<longleftrightarrow> T < 50 \<or> (70 \<le> T \<and> T < 250)"
  by (simp add: loadingAt_def eventsBetween_def raceHost_def isLoading_loadingWorld
      emit_refreshCompleted emit_refreshStarted)

lemma waitForLoading_silent:
  "waitForLoading 0 silentHost loadingWorld = Some (Some 100, loadingWorld)"
  using waitForLoading_at [of loadingWorld 100 0 silentHost]
  by (simp add: isLoading_loadingWorld loadingAt_silent pollTime_silent timeoutMs_def
      eventsBetween_silent)

lemma waitEndedAt_silent:
  "waitEndedAt 0 silentHost loadingWorld = Some 10100"
  using waitForLoading_silent by (simp add: waitEndedAt_def pollTime_silent)

lemma waitEndedAt_lateDeadline:
  "waitEndedAt 0 lateDeadlineHost loadingWorld = Some 10150"
proof -
  have "waitForLoading 0 lateDeadlineHost loadingWorld =
      Some (Some 100,
        emitAll (eventsBetween lateDeadlineHost 0 (pollTime 0 lateDeadlineHost 100)) loadingWorld)"
    by (rule waitForLoading_at)
      (simp_all add: isLoading_loadingWorld loadingAt_lateDeadline pollTime_lateDeadline
        timeoutMs_def)
  then show ?thesis by (simp add: waitEndedAt_def pollTime_lateDeadline)
qed

lemma waitEndedAt_race:
  "waitEndedAt 0 raceHost loadingWorld = Some 300"
proof -
  have "waitForLoading 0 raceHost loadingWorld =
      Some (Some 2, emitAll (eventsBetween raceHost 0 (pollTime 0 raceHost 2)) loadingWorld)"
    by (rule waitForLoading_at)
      (simp_all add: isLoading_loadingWorld loadingAt_race pollTime_race timeoutMs_def
        less_Suc_eq numeral_2_eq_2)
  then show ?thesis by (simp add: waitEndedAt_def pollTime_race)
qed

lemma waitEndedAt_late:
  "waitEndedAt 0 lateHost loadingWorld = Some 202"
proof -
  have "waitForLoading 0 lateHost loadingWorld =
      Some (Some 1, emitAll (eventsBetween lateHost 0 (pollTime 0 lateHost 1)) loadingWorld)"
    by (rule waitForLoading_at)
      (simp_all add: isLoading_loadingWorld loadingAt_late pollTime_late timeoutMs_def)
  then show ?thesis by (simp add: waitEndedAt_def pollTime_late)
qed

lemma resolvedAt_early:
  "waitEndedAt 0 earlyHost loadingWorld = Some 100"
  "resolvedAt None 0 earlyHost slowManager loadingWorld = Some 600"
proof -
  have "waitForLoading 0 earlyHost loadingWorld =
      Some (Some 0, emitAll (eventsBetween earlyHost 0 (pollTime 0 earlyHost 0)) loadingWorld)"
    by (rule waitForLoading_at)
      (simp_all add: isLoading_loadingWorld loadingAt_early pollTime_early timeoutMs_def)
  from waitEndedAt_poll [OF this, of slowManager]
  show "waitEndedAt 0 earlyHost loadingWorld = Some 100"
    "resolvedAt None 0 earlyHost slowManager loadingWorld = Some 600"
    by (simp_all add: pollTime_early slowManager_def)
qed

lemma waitForLoading_cleared:
  assumes loading: "isLoading w"
    and until: "\<forall>T. start \<le> T \<and> T < start + delta \<longrightarrow> loadingAt start host w T"
    and cleared: "\<not> loadingAt start host w (start + delta)"
    and early: "delta < timeoutMs"
  shows "\<exists>j. (\<forall>i<j. pollTime start host i < start + delta)
           \<and> start + delta \<le> pollTime start host j
           \<and> pollTime start host j < start + delta + pollIntervalMs + int (lateness host j)
           \<and> (\<not> loadingAt start host w (pollTime start host j) \<longrightarrow>
                waitForLoading start host w =
                  Some (Some j, emitAll (eventsBetween host start (pollTime start host j)) w)
                \<and> waitEndedAt start host w = Some (pollTime start host j)
                \<and> getChildren None start host mgr w =
                    Some (getSchemes mgr
                      (emitAll (eventsBetween host start (pollTime start host j)) w))
                \<and> resolvedAt None start host mgr w =
                    Some (pollTime start host j + int (fetchMs mgr)))"
proof -
  have positive: "start < start + delta"
  proof (rule ccontr)
    assume "\<not> start < start + delta"
    then have "loadingAt start host w (start + delta) = isLoading w"
      by (intro loadingAt_start) simp
    with loading cleared show False by simp
  qed
  from first_poll_from [OF positive, of host] obtain j where
    before: "\<forall>i<j. pollTime start host i < start + delta" and
    reached: "start + delta \<le> pollTime start host j" and
    bound: "pollTime start host j < start + delta + pollIntervalMs + int (lateness host j)"
    by blast
  have ends: "waitForLoading start host w =
                  Some (Some j, emitAll (eventsBetween host start (pollTime start host j)) w)
                \<and> waitEndedAt start host w = Some (pollTime start host j)
                \<and> getChildren None start host mgr w =
                    Some (getSchemes mgr
                      (emitAll (eventsBetween host start (pollTime start host j)) w))
                \<and> resolvedAt None start host mgr w =
                    Some (pollTime start host j + int (fetchMs mgr))"
    if still: "\<not> loadingAt start host w (pollTime start host j)"
  proof -
    have polls: "\<forall>i<j. loadingAt start host w (pollTime start host i) \<and>
                        pollTime start host i \<le> start + timeoutMs"
    proof (intro allI impI)
      fix i assume "i < j"
      with before have lt: "pollTime start host i < start + delta" by simp
      moreover have "start \<le> pollTime start host i"
        using pollTime_after_start [of start host i] by simp
      ultimately have "loadingAt start host w (pollTime start host i)" using until by simp
      with lt early show "loadingAt start host w (pollTime start host i) \<and>
                        pollTime start host i \<le> start + timeoutMs" by simp
    qed
    have wait: "waitForLoading start host w =
                  Some (Some j, emitAll (eventsBetween host start (pollTime start host j)) w)"
      using loading polls still by (intro waitForLoading_at) simp_all
    from waitEndedAt_poll [OF wait, of mgr] getChildren_root [OF wait, of mgr] wait
    show ?thesis by simp
  qed
  from before reached bound ends show ?thesis by blast
qed

lemma waitForLoading_idle:
  "\<not> isLoading w \<Longrightarrow>
   waitForLoading start host w = Some (None, w)
   \<and> waitEndedAt start host w = Some start
   \<and> getChildren None start host mgr w = Some (getSchemes mgr w)
   \<and> resolvedAt None start host mgr w = Some (start + int (fetchMs mgr))"
  by (simp add: waitForLoading_def waitEndedAt_def getChildren_def resolvedAt_def)

lemma waitForLoading_bounded:
  assumes "isLoading w"
  shows "\<exists>j. waitForLoading start host w =
               Some (Some j, emitAll (eventsBetween host start (pollTime start host j)) w)
           \<and> waitEndedAt start host w = Some (pollTime start host j)
           \<and> (\<forall>i<j. loadingAt start host w (pollTime start host i)
                     \<and> pollTime start host i \<le> start + timeoutMs)
           \<and> (\<not> loadingAt start host w (pollTime start host j)
                \<or> start + timeoutMs < pollTime start host j)
           \<and> pollTime start host j
                \<le> start + timeoutMs + pollIntervalMs + int (lateness host j)"
proof -
  from waitForLoading_ends [OF assms, of start host] obtain j where
    wait: "waitForLoading start host w =
               Some (Some j, emitAll (eventsBetween host start (pollTime start host j)) w)"
    and rest: "(\<forall>i<j. loadingAt start host w (pollTime start host i)
                     \<and> pollTime start host i \<le> start + timeoutMs)
           \<and> (\<not> loadingAt start host w (pollTime start host j)
                \<or> start + timeoutMs < pollTime start host j)
           \<and> pollTime start host j
                \<le> start + timeoutMs + pollIntervalMs + int (lateness host j)"
    by blast
  from waitEndedAt_poll [OF wait] have "waitEndedAt start host w = Some (pollTime start host j)"
    by simp
  with wait rest show ?thesis by blast
qed

section \<open>The claims\<close>

subsection \<open>Badges\<close>

text \<open>
  C1. Let the fetch return the schemes \<open>S\<close>. The \<open>i\<close>-th node carries the mark of the build
  default (its description is the check mark alone or the check mark followed by \<open>(t)\<close>)
  exactly when the name of the \<open>i\<close>-th scheme is the build default; it carries the mark of
  the testing default (\<open>(t)\<close> alone or after the check mark) exactly when that name is the
  testing default; when the two defaults are the same name, a node of that name carries
  both; and a node with neither mark has no description at all, which is never the empty
  string. An absent default equals no name.
\<close>

theorem getSchemes_badges:
  assumes "outcome mgr = Inr S" and "i < length S"
  shows "(description (fst (getSchemes mgr w) ! i)
            \<in> {Some (ascii '' '' @ [checkMark]), Some (ascii '' '' @ [checkMark] @ ascii '' (t)'')}
          \<longleftrightarrow> Some (name (S ! i)) = defaultSchemeForBuild mgr)
       \<and> (description (fst (getSchemes mgr w) ! i)
            \<in> {Some (ascii '' (t)''), Some (ascii '' '' @ [checkMark] @ ascii '' (t)'')}
          \<longleftrightarrow> Some (name (S ! i)) = defaultSchemeForTesting mgr)
       \<and> (defaultSchemeForBuild mgr = defaultSchemeForTesting mgr
            \<and> Some (name (S ! i)) = defaultSchemeForBuild mgr
          \<longrightarrow> description (fst (getSchemes mgr w) ! i)
                = Some (ascii '' '' @ [checkMark] @ ascii '' (t)''))
       \<and> (Some (name (S ! i)) \<noteq> defaultSchemeForBuild mgr
            \<and> Some (name (S ! i)) \<noteq> defaultSchemeForTesting mgr
          \<longleftrightarrow> description (fst (getSchemes mgr w) ! i) = None)
       \<and> description (fst (getSchemes mgr w) ! i) \<noteq> Some []"
proof -
  have node: "fst (getSchemes mgr w) ! i = schemeItem mgr (S ! i)"
    using assms by (simp add: getSchemes_nodes)
  show ?thesis
    unfolding node schemeItem_description
    using marker_distinct marker_distinct [symmetric]
    by (simp add: ascii_def)
qed

theorem getSchemes_badges_witness:
  "outcome appManager = Inr appSchemes \<and> 0 < length appSchemes \<and> 1 < length appSchemes
   \<and> description (fst (getSchemes appManager constructed) ! 0) = Some (ascii '' '' @ [checkMark])
   \<and> description (fst (getSchemes appManager constructed) ! 1) = Some (ascii '' (t)'')
   \<and> outcome soloManager = Inr soloSchemes \<and> 0 < length soloSchemes
   \<and> description (fst (getSchemes soloManager constructed) ! 0)
       = Some (ascii '' '' @ [checkMark] @ ascii '' (t)'')"
proof -
  have app: "outcome appManager = Inr appSchemes" by (simp add: appManager_def)
  have solo: "outcome soloManager = Inr soloSchemes" by (simp add: soloManager_def)
  have len: "0 < length appSchemes" "1 < length appSchemes" "0 < length soloSchemes"
    by (simp_all add: appSchemes_def soloSchemes_def)
  have first: "Some (name (appSchemes ! 0)) = defaultSchemeForBuild appManager"
    "Some (name (appSchemes ! 0)) \<noteq> defaultSchemeForTesting appManager"
    by (simp_all add: appManager_def appSchemes_def ascii_def)
  have second: "Some (name (appSchemes ! 1)) \<noteq> defaultSchemeForBuild appManager"
    "Some (name (appSchemes ! 1)) = defaultSchemeForTesting appManager"
    by (simp_all add: appManager_def appSchemes_def ascii_def)
  have only: "defaultSchemeForBuild soloManager = defaultSchemeForTesting soloManager"
    "Some (name (soloSchemes ! 0)) = defaultSchemeForBuild soloManager"
    by (simp_all add: soloManager_def soloSchemes_def)
  have d0: "description (fst (getSchemes appManager constructed) ! 0)
      = Some (ascii '' '' @ [checkMark])"
    using getSchemes_badges [OF app len(1), of constructed] first by auto
  have d1: "description (fst (getSchemes appManager constructed) ! 1) = Some (ascii '' (t)'')"
    using getSchemes_badges [OF app len(2), of constructed] second by auto
  have d2: "description (fst (getSchemes soloManager constructed) ! 0)
      = Some (ascii '' '' @ [checkMark] @ ascii '' (t)'')"
    using getSchemes_badges [OF solo len(3), of constructed] only by blast
  from app solo len d0 d1 d2 show ?thesis by blast
qed

subsection \<open>The wait for a refresh\<close>

text \<open>
  C2, as amended. If \<open>isLoading\<close> is false at the call, the root call does not wait: the
  wait ends at the time of the call and the call goes on to the fetch. If it is true at
  the call and the flag becomes false \<open>delta\<close> milliseconds later, \<open>delta\<close> below 10 s,
  then there is a first poll at or after \<open>delta\<close>; it comes less than 100 ms plus its own
  lateness after \<open>delta\<close> (so within \<open>delta\<close> + 100 ms when the timer is on time); and
  if the flag is still false at that poll, the wait ends there, the call goes on to the
  fetch, and its promise resolves when the fetch has settled. In every case in which the
  flag is true at the call the wait ends at the first poll that finds the flag false or
  the clock strictly past the deadline, which is no later than 10 s + 100 ms plus that
  poll's lateness after the wait began.
\<close>

theorem waitForLoading_timing:
  "(\<not> isLoading w \<longrightarrow>
      waitForLoading start host w = Some (None, w)
      \<and> waitEndedAt start host w = Some start
      \<and> getChildren None start host mgr w = Some (getSchemes mgr w)
      \<and> resolvedAt None start host mgr w = Some (start + int (fetchMs mgr)))
   \<and> (isLoading w
      \<and> (\<forall>T. start \<le> T \<and> T < start + delta \<longrightarrow> loadingAt start host w T)
      \<and> \<not> loadingAt start host w (start + delta)
      \<and> delta < 10000 \<longrightarrow>
      (\<exists>j. (\<forall>i<j. pollTime start host i < start + delta)
         \<and> start + delta \<le> pollTime start host j
         \<and> pollTime start host j < start + delta + 100 + int (lateness host j)
         \<and> (\<not> loadingAt start host w (pollTime start host j) \<longrightarrow>
              waitForLoading start host w =
                Some (Some j, emitAll (eventsBetween host start (pollTime start host j)) w)
              \<and> waitEndedAt start host w = Some (pollTime start host j)
              \<and> getChildren None start host mgr w =
                  Some (getSchemes mgr
                    (emitAll (eventsBetween host start (pollTime start host j)) w))
              \<and> resolvedAt None start host mgr w =
                  Some (pollTime start host j + int (fetchMs mgr)))))
   \<and> (isLoading w \<longrightarrow>
      (\<exists>j. waitForLoading start host w =
             Some (Some j, emitAll (eventsBetween host start (pollTime start host j)) w)
         \<and> waitEndedAt start host w = Some (pollTime start host j)
         \<and> (\<forall>i<j. loadingAt start host w (pollTime start host i)
                   \<and> pollTime start host i \<le> start + 10000)
         \<and> (\<not> loadingAt start host w (pollTime start host j)
              \<or> start + 10000 < pollTime start host j)
         \<and> pollTime start host j
              \<le> start + 10100 + int (lateness host j)))"
proof -
  have idle: "\<not> isLoading w \<longrightarrow>
      waitForLoading start host w = Some (None, w)
      \<and> waitEndedAt start host w = Some start
      \<and> getChildren None start host mgr w = Some (getSchemes mgr w)
      \<and> resolvedAt None start host mgr w = Some (start + int (fetchMs mgr))"
    using waitForLoading_idle [of w start host mgr] by blast
  have cleared: "isLoading w
      \<and> (\<forall>T. start \<le> T \<and> T < start + delta \<longrightarrow> loadingAt start host w T)
      \<and> \<not> loadingAt start host w (start + delta)
      \<and> delta < 10000 \<longrightarrow>
      (\<exists>j. (\<forall>i<j. pollTime start host i < start + delta)
         \<and> start + delta \<le> pollTime start host j
         \<and> pollTime start host j < start + delta + 100 + int (lateness host j)
         \<and> (\<not> loadingAt start host w (pollTime start host j) \<longrightarrow>
              waitForLoading start host w =
                Some (Some j, emitAll (eventsBetween host start (pollTime start host j)) w)
              \<and> waitEndedAt start host w = Some (pollTime start host j)
              \<and> getChildren None start host mgr w =
                  Some (getSchemes mgr
                    (emitAll (eventsBetween host start (pollTime start host j)) w))
              \<and> resolvedAt None start host mgr w =
                  Some (pollTime start host j + int (fetchMs mgr))))"
    using waitForLoading_cleared [of w start delta host mgr]
    by (simp add: timeoutMs_def pollIntervalMs_def)
  have bounded: "isLoading w \<longrightarrow>
      (\<exists>j. waitForLoading start host w =
             Some (Some j, emitAll (eventsBetween host start (pollTime start host j)) w)
         \<and> waitEndedAt start host w = Some (pollTime start host j)
         \<and> (\<forall>i<j. loadingAt start host w (pollTime start host i)
                   \<and> pollTime start host i \<le> start + 10000)
         \<and> (\<not> loadingAt start host w (pollTime start host j)
              \<or> start + 10000 < pollTime start host j)
         \<and> pollTime start host j
              \<le> start + 10100 + int (lateness host j))"
  proof
    assume "isLoading w"
    from waitForLoading_bounded [OF this, of start host] obtain j where
      "waitForLoading start host w =
         Some (Some j, emitAll (eventsBetween host start (pollTime start host j)) w)"
      "waitEndedAt start host w = Some (pollTime start host j)"
      "\<forall>i<j. loadingAt start host w (pollTime start host i)
               \<and> pollTime start host i \<le> start + timeoutMs"
      "\<not> loadingAt start host w (pollTime start host j)
         \<or> start + timeoutMs < pollTime start host j"
      "pollTime start host j \<le> start + timeoutMs + pollIntervalMs + int (lateness host j)"
      by blast
    then show "\<exists>j. waitForLoading start host w =
             Some (Some j, emitAll (eventsBetween host start (pollTime start host j)) w)
         \<and> waitEndedAt start host w = Some (pollTime start host j)
         \<and> (\<forall>i<j. loadingAt start host w (pollTime start host i)
                   \<and> pollTime start host i \<le> start + 10000)
         \<and> (\<not> loadingAt start host w (pollTime start host j)
              \<or> start + 10000 < pollTime start host j)
         \<and> pollTime start host j
              \<le> start + 10100 + int (lateness host j)"
      by (intro exI [of _ j]) (simp add: timeoutMs_def pollIntervalMs_def)
  qed
  from idle cleared bounded show ?thesis by (intro conjI)
qed

theorem waitForLoading_timing_witness:
  "\<not> isLoading constructed
   \<and> waitEndedAt 0 completingHost constructed = Some 0
   \<and> isLoading loadingWorld
   \<and> loadingAt 0 completingHost loadingWorld 249
   \<and> \<not> loadingAt 0 completingHost loadingWorld 250
   \<and> \<not> loadingAt 0 completingHost loadingWorld 300
   \<and> waitEndedAt 0 completingHost loadingWorld = Some 300
   \<and> resolvedAt None 0 completingHost slowManager loadingWorld = Some 800"
proof -
  have idle: "\<not> isLoading constructed" by (simp add: constructed_def)
  have until: "\<forall>T. 0 \<le> T \<and> T < 0 + 250 \<longrightarrow> loadingAt 0 completingHost loadingWorld T"
    by (simp add: loadingAt_completing)
  have cleared: "\<not> loadingAt 0 completingHost loadingWorld (0 + 250)"
    by (simp add: loadingAt_completing)
  have early: "(250::int) < 10000" by simp
  from waitForLoading_timing [where w = loadingWorld and start = 0 and host = completingHost
      and delta = 250 and mgr = slowManager] isLoading_loadingWorld until cleared early
  obtain j where before: "\<forall>i<j. pollTime 0 completingHost i < 0 + 250"
    and reached: "0 + 250 \<le> pollTime 0 completingHost j"
    and ends: "\<not> loadingAt 0 completingHost loadingWorld (pollTime 0 completingHost j) \<longrightarrow>
        waitEndedAt 0 completingHost loadingWorld = Some (pollTime 0 completingHost j)
        \<and> resolvedAt None 0 completingHost slowManager loadingWorld =
            Some (pollTime 0 completingHost j + int (fetchMs slowManager))"
    by blast
  have "j = 2"
  proof -
    from reached have "2 \<le> j" by (simp add: pollTime_completing)
    moreover have "\<not> 2 < j"
    proof
      assume "2 < j"
      with before have "pollTime 0 completingHost 2 < 0 + 250" by blast
      then show False by (simp add: pollTime_completing)
    qed
    ultimately show ?thesis by simp
  qed
  with ends have "waitEndedAt 0 completingHost loadingWorld = Some 300
      \<and> resolvedAt None 0 completingHost slowManager loadingWorld = Some 800"
    by (simp add: pollTime_completing loadingAt_completing slowManager_def)
  moreover from waitForLoading_timing [where w = constructed and start = 0
      and host = completingHost and mgr = slowManager] idle
  have "waitEndedAt 0 completingHost constructed = Some 0" by blast
  ultimately show ?thesis
    using idle isLoading_loadingWorld by (simp add: loadingAt_completing)
qed

text \<open>
  C2 as stated fails in each of its bounds; the wait begins at time 0 with the flag true.
  On \<open>silentHost\<close> the refresh never completes and the timer is on time: the poll at
  10 000 ms reads a clock equal to the deadline, which is not past it (line 98 compares
  with \<open>>\<close>), and the wait ends at 10 100 ms, later than 10 s. On \<open>raceHost\<close> the flag
  becomes false after 50 ms, but a new refresh starts before the first poll and the wait
  ends at 300 ms, later than 50 + 100 ms. On \<open>lateHost\<close> the flag becomes false after
  101 ms and stays false, but the second poll is 2 ms late and the wait ends at 202 ms,
  later than 101 + 100 ms. On \<open>earlyHost\<close> the flag becomes false after 50 ms and the wait
  ends at 100 ms, but the fetch takes 500 ms and the call resolves at 600 ms. On
  \<open>lateDeadlineHost\<close> the poll due at 10 100 ms is 50 ms late and the wait ends at
  10 150 ms.
\<close>

theorem wait_within_timeout_counterexample:
  "isLoading loadingWorld
   \<and> waitEndedAt 0 silentHost loadingWorld = Some 10100
   \<and> \<not> (10100::int) \<le> 10000
   \<and> loadingAt 0 raceHost loadingWorld 49
   \<and> \<not> loadingAt 0 raceHost loadingWorld 50
   \<and> (50::int) < 10000
   \<and> waitEndedAt 0 raceHost loadingWorld = Some 300
   \<and> \<not> (300::int) \<le> 50 + 100
   \<and> loadingAt 0 lateHost loadingWorld 100
   \<and> \<not> loadingAt 0 lateHost loadingWorld 101
   \<and> \<not> loadingAt 0 lateHost loadingWorld 202
   \<and> waitEndedAt 0 lateHost loadingWorld = Some 202
   \<and> \<not> (202::int) \<le> 101 + 100
   \<and> loadingAt 0 earlyHost loadingWorld 49
   \<and> \<not> loadingAt 0 earlyHost loadingWorld 50
   \<and> waitEndedAt 0 earlyHost loadingWorld = Some 100
   \<and> resolvedAt None 0 earlyHost slowManager loadingWorld = Some 600
   \<and> \<not> (600::int) \<le> 50 + 100
   \<and> waitEndedAt 0 lateDeadlineHost loadingWorld = Some 10150
   \<and> \<not> (10150::int) \<le> 10000 + 100"
  using isLoading_loadingWorld waitEndedAt_silent waitEndedAt_race waitEndedAt_late
    resolvedAt_early waitEndedAt_lateDeadline
  by (simp add: loadingAt_race loadingAt_late loadingAt_early)

subsection \<open>A failed or empty fetch\<close>

text \<open>
  C3. In a root call whose fetch fails, the error is logged (once, with the message of
  line 120), the call resolves to the empty list, and \<open>setContext\<close> is executed once with
  the key \<open>sweetpad.build.noSchemes\<close> and the value true; the same holds, without the log
  entry, when the fetch returns the empty list. The call has no way to reject, and it
  always settles: the wait ends, because every firing of the timer comes at least 100 ms
  after the one before and so reads a clock past the deadline in the end.
\<close>

theorem getChildren_fetch_failure:
  "(outcome mgr = Inl err \<and> getChildren None start host mgr w = Some (nodes, w') \<longrightarrow>
      nodes = []
      \<and> errorLog w' = errorLog w @ [(ascii ''Failed to get schemes'', err)]
      \<and> executed w' = executed w @ [noSchemesCommand]
      \<and> contextKeys w' =
          (contextKeys w)(ascii ''sweetpad.build.noSchemes'' \<mapsto> JSBoolean True))
   \<and> (outcome mgr = Inr [] \<and> getChildren None start host mgr w = Some (nodes, w') \<longrightarrow>
      nodes = []
      \<and> errorLog w' = errorLog w
      \<and> executed w' = executed w @ [noSchemesCommand]
      \<and> contextKeys w' =
          (contextKeys w)(ascii ''sweetpad.build.noSchemes'' \<mapsto> JSBoolean True))
   \<and> (\<exists>r. getChildren None start host mgr w = Some r)"
proof -
  have failed: "nodes = []
      \<and> errorLog w' = errorLog w @ [(ascii ''Failed to get schemes'', err)]
      \<and> executed w' = executed w @ [noSchemesCommand]
      \<and> contextKeys w' =
          (contextKeys w)(ascii ''sweetpad.build.noSchemes'' \<mapsto> JSBoolean True)"
    if "outcome mgr = Inl err" and "getChildren None start host mgr w = Some (nodes, w')"
  proof -
    from getChildren_settled [OF that(2)] obtain w1 where
      res: "getSchemes mgr w1 = (nodes, w')" and
      frame: "errorLog w1 = errorLog w" "executed w1 = executed w"
        "contextKeys w1 = contextKeys w"
      by blast
    from getSchemes_failure [OF that(1), of w1] show ?thesis
      unfolding res frame by simp
  qed
  have empty: "nodes = []
      \<and> errorLog w' = errorLog w
      \<and> executed w' = executed w @ [noSchemesCommand]
      \<and> contextKeys w' =
          (contextKeys w)(ascii ''sweetpad.build.noSchemes'' \<mapsto> JSBoolean True)"
    if "outcome mgr = Inr []" and "getChildren None start host mgr w = Some (nodes, w')"
  proof -
    from getChildren_settled [OF that(2)] obtain w1 where
      res: "getSchemes mgr w1 = (nodes, w')" and
      frame: "errorLog w1 = errorLog w" "executed w1 = executed w"
        "contextKeys w1 = contextKeys w"
      by blast
    from getSchemes_empty [OF that(1), of w1] show ?thesis
      unfolding res frame by simp
  qed
  have settles: "\<exists>r. getChildren None start host mgr w = Some r"
    by (rule getChildren_resolves)
  from failed empty settles show ?thesis by blast
qed

theorem getChildren_fetch_failure_witness:
  "outcome failingManager = Inl fetchError
   \<and> getChildren None 0 silentHost failingManager loadingWorld =
       Some (getSchemes failingManager loadingWorld)
   \<and> fst (getSchemes failingManager loadingWorld) = []
   \<and> errorLog (snd (getSchemes failingManager loadingWorld)) =
       errorLog loadingWorld @ [(ascii ''Failed to get schemes'', fetchError)]
   \<and> executed (snd (getSchemes failingManager loadingWorld)) =
       executed loadingWorld @ [noSchemesCommand]
   \<and> outcome emptyManager = Inr []
   \<and> getChildren None 0 silentHost emptyManager loadingWorld =
       Some (getSchemes emptyManager loadingWorld)
   \<and> fst (getSchemes emptyManager loadingWorld) = []
   \<and> errorLog (snd (getSchemes emptyManager loadingWorld)) = errorLog loadingWorld
   \<and> executed (snd (getSchemes emptyManager loadingWorld)) =
       executed loadingWorld @ [noSchemesCommand]"
proof -
  have fails: "outcome failingManager = Inl fetchError" by (simp add: failingManager_def)
  have none: "outcome emptyManager = Inr []" by (simp add: emptyManager_def)
  have call: "getChildren None 0 silentHost mgr loadingWorld =
      Some (fst (getSchemes mgr loadingWorld), snd (getSchemes mgr loadingWorld))" for mgr
    using waitForLoading_silent by (simp add: getChildren_def)
  show ?thesis
    using getChildren_fetch_failure [where mgr = failingManager and err = fetchError
        and start = 0 and host = silentHost and w = loadingWorld
        and nodes = "fst (getSchemes failingManager loadingWorld)"
        and w' = "snd (getSchemes failingManager loadingWorld)"]
      getChildren_fetch_failure [where mgr = emptyManager and err = fetchError
        and start = 0 and host = silentHost and w = loadingWorld
        and nodes = "fst (getSchemes emptyManager loadingWorld)"
        and w' = "snd (getSchemes emptyManager loadingWorld)"]
      fails none call [of failingManager] call [of emptyManager]
    by (simp add: prod_eq_iff)
qed

subsection \<open>The loading flag\<close>

text \<open>
  C4. \<open>isLoading\<close> is false after construction. The listener of \<open>refreshSchemesStarted\<close>
  sets it to true, those of \<open>refreshSchemesCompleted\<close> and \<open>refreshSchemesFailed\<close> set it to
  false, those of the two default-scheme events leave it as it is, and each of the five
  fires the change signal once with the payload \<open>null\<close>. Nothing else writes the flag: an
  event of any other name, \<open>updateView\<close> and \<open>getTreeItem\<close> leave it unchanged, and after
  \<open>getSchemes\<close> or \<open>getChildren\<close> it has the value that the events delivered while the call
  was suspended gave it.
\<close>

theorem isLoading_writers:
  "isLoading constructed = False
   \<and> (eventName ev = ascii ''refreshSchemesStarted'' \<longrightarrow>
        isLoading (emit ev w) = True \<and> fired (emit ev w) = fired w @ [Null])
   \<and> (eventName ev = ascii ''refreshSchemesCompleted''
        \<or> eventName ev = ascii ''refreshSchemesFailed'' \<longrightarrow>
        isLoading (emit ev w) = False \<and> fired (emit ev w) = fired w @ [Null])
   \<and> (eventName ev = ascii ''defaultSchemeForBuildUpdated''
        \<or> eventName ev = ascii ''defaultSchemeForTestingUpdated'' \<longrightarrow>
        isLoading (emit ev w) = isLoading w \<and> fired (emit ev w) = fired w @ [Null])
   \<and> (eventName ev \<notin> {ascii ''refreshSchemesStarted'', ascii ''refreshSchemesCompleted'',
                          ascii ''refreshSchemesFailed''} \<longrightarrow>
        isLoading (emit ev w) = isLoading w)
   \<and> isLoading (updateView w) = isLoading w
   \<and> isLoading (snd (getTreeItem element w)) = isLoading w
   \<and> isLoading (snd (getSchemes mgr w)) = isLoading (emitAll (meanwhile mgr) w)
   \<and> (getChildren node start host mgr w = Some (nodes, w') \<longrightarrow>
        (case node of
           Some e \<Rightarrow> w' = w
         | None \<Rightarrow>
             (\<exists>k. waitForLoading start host w =
                    Some (k, worldAfter (setInterval pollIntervalMs start host) w
                               (case k of None \<Rightarrow> 0 | Some j \<Rightarrow> Suc j))
                \<and> isLoading w' =
                    isLoading (emitAll (meanwhile mgr)
                      (worldAfter (setInterval pollIntervalMs start host) w
                         (case k of None \<Rightarrow> 0 | Some j \<Rightarrow> Suc j))))))"
proof -
  have c1: "isLoading constructed = False" by (simp add: constructed_def)
  have c2: "eventName ev = ascii ''refreshSchemesStarted'' \<longrightarrow>
        isLoading (emit ev w) = True \<and> fired (emit ev w) = fired w @ [Null]"
    by (simp add: emit_started)
  have c3: "eventName ev = ascii ''refreshSchemesCompleted''
        \<or> eventName ev = ascii ''refreshSchemesFailed'' \<longrightarrow>
        isLoading (emit ev w) = False \<and> fired (emit ev w) = fired w @ [Null]"
    using emit_completed [of ev w] emit_failed [of ev w] by auto
  have c4: "eventName ev = ascii ''defaultSchemeForBuildUpdated''
        \<or> eventName ev = ascii ''defaultSchemeForTestingUpdated'' \<longrightarrow>
        isLoading (emit ev w) = isLoading w \<and> fired (emit ev w) = fired w @ [Null]"
    using emit_defaultBuild [of ev w] emit_defaultTesting [of ev w] by auto
  have c5: "eventName ev \<notin> {ascii ''refreshSchemesStarted'', ascii ''refreshSchemesCompleted'',
                          ascii ''refreshSchemesFailed''} \<longrightarrow>
        isLoading (emit ev w) = isLoading w"
    using emit_unrelated [of ev w] by blast
  have c6: "isLoading (updateView w) = isLoading w" by (simp add: updateView_def)
  have c7: "isLoading (snd (getTreeItem element w)) = isLoading w" by (simp add: getTreeItem_def)
  have c8: "isLoading (snd (getSchemes mgr w)) = isLoading (emitAll (meanwhile mgr) w)"
    by (simp add: getSchemes_loading)
  have c9: "getChildren node start host mgr w = Some (nodes, w') \<longrightarrow>
        (case node of
           Some e \<Rightarrow> w' = w
         | None \<Rightarrow>
             (\<exists>k. waitForLoading start host w =
                    Some (k, worldAfter (setInterval pollIntervalMs start host) w
                               (case k of None \<Rightarrow> 0 | Some j \<Rightarrow> Suc j))
                \<and> isLoading w' =
                    isLoading (emitAll (meanwhile mgr)
                      (worldAfter (setInterval pollIntervalMs start host) w
                         (case k of None \<Rightarrow> 0 | Some j \<Rightarrow> Suc j)))))"
    using getChildren_loading [of node start host mgr w nodes w'] by blast
  from c1 c2 c3 c4 c5 c6 c7 c8 c9 show ?thesis by blast
qed

theorem isLoading_writers_witness:
  "eventName refreshStarted = ascii ''refreshSchemesStarted''
   \<and> isLoading (emit refreshStarted constructed)
   \<and> fired (emit refreshStarted constructed) = fired constructed @ [Null]
   \<and> eventName refreshCompleted = ascii ''refreshSchemesCompleted''
   \<and> \<not> isLoading (emit refreshCompleted loadingWorld)
   \<and> fired (emit refreshCompleted loadingWorld) = fired loadingWorld @ [Null]
   \<and> eventName refreshFailed = ascii ''refreshSchemesFailed''
   \<and> \<not> isLoading (emit refreshFailed loadingWorld)
   \<and> eventName buildDefaultUpdated = ascii ''defaultSchemeForBuildUpdated''
   \<and> isLoading (emit buildDefaultUpdated loadingWorld)
   \<and> fired (emit buildDefaultUpdated loadingWorld) = fired loadingWorld @ [Null]
   \<and> isLoading (emit unrelatedEvent loadingWorld)
   \<and> getChildren None 0 silentHost appManager loadingWorld =
       Some (getSchemes appManager loadingWorld)
   \<and> isLoading (snd (getSchemes appManager loadingWorld))"
proof -
  have names: "eventName refreshStarted = ascii ''refreshSchemesStarted''"
    "eventName refreshCompleted = ascii ''refreshSchemesCompleted''"
    "eventName refreshFailed = ascii ''refreshSchemesFailed''"
    "eventName buildDefaultUpdated = ascii ''defaultSchemeForBuildUpdated''"
    by (simp_all add: refreshStarted_def refreshCompleted_def refreshFailed_def
        buildDefaultUpdated_def)
  have other: "eventName unrelatedEvent \<notin>
      {ascii ''refreshSchemesStarted'', ascii ''refreshSchemesCompleted'',
       ascii ''refreshSchemesFailed''}"
    by (simp add: unrelatedEvent_def ascii_def)
  have call: "getChildren None 0 silentHost appManager loadingWorld =
      Some (fst (getSchemes appManager loadingWorld), snd (getSchemes appManager loadingWorld))"
    using waitForLoading_silent by (simp add: getChildren_def)
  have quiet: "emitAll (meanwhile appManager) w = w" for w
    by (simp add: appManager_def)
  have loading: "isLoading loadingWorld" by (rule isLoading_loadingWorld)
  have after: "isLoading (snd (getSchemes appManager loadingWorld))"
    using isLoading_writers [where node = None and start = 0 and host = silentHost
        and mgr = appManager and w = loadingWorld
        and nodes = "fst (getSchemes appManager loadingWorld)"
        and w' = "snd (getSchemes appManager loadingWorld)"]
      call loading
    by (simp add: quiet worldAfter_silent)
  show ?thesis
    using isLoading_writers [where ev = refreshStarted and w = constructed]
      isLoading_writers [where ev = refreshCompleted and w = loadingWorld]
      isLoading_writers [where ev = refreshFailed and w = loadingWorld]
      isLoading_writers [where ev = buildDefaultUpdated and w = loadingWorld]
      isLoading_writers [where ev = unrelatedEvent and w = loadingWorld]
      names other call loading after
    by simp
qed

subsection \<open>Children of a node\<close>

text \<open>
  C5. For a defined node, \<open>getChildren\<close> returns the empty list at once, whatever the state,
  the host and the manager: the world is returned as it was, so nothing is logged, no
  call into the manager is made and no firing of a timer is awaited (the result does not
  depend on the host's events or timer).
\<close>

theorem getChildren_leaf:
  "getChildren (Some element) start host mgr w = Some ([], w)"
  by (simp add: getChildren_def)

subsection \<open>Order, labels and leaves\<close>

text \<open>
  C6. When the fetch returns the schemes \<open>S\<close>, \<open>getSchemes\<close> returns as many nodes, the
  \<open>i\<close>-th node has the name of the \<open>i\<close>-th scheme as its label and as its scheme, and its
  collapsible state is \<open>None\<close>.
\<close>

theorem getSchemes_order:
  assumes "outcome mgr = Inr S"
  shows "length (fst (getSchemes mgr w)) = length S
       \<and> map label (fst (getSchemes mgr w)) = map name S
       \<and> map scheme (fst (getSchemes mgr w)) = map name S
       \<and> (\<forall>i < length S. label (fst (getSchemes mgr w) ! i) = name (S ! i)
                        \<and> scheme (fst (getSchemes mgr w) ! i) = name (S ! i)
                        \<and> collapsibleState (fst (getSchemes mgr w) ! i) = None_state)"
  using assms by (simp add: getSchemes_nodes schemeItem_fields comp_def)

theorem getSchemes_order_witness:
  "outcome appManager = Inr appSchemes
   \<and> length (fst (getSchemes appManager constructed)) = 2
   \<and> map label (fst (getSchemes appManager constructed)) = [ascii ''App'', ascii ''AppTests'']
   \<and> collapsibleState (fst (getSchemes appManager constructed) ! 1) = None_state"
proof -
  have app: "outcome appManager = Inr appSchemes" by (simp add: appManager_def)
  show ?thesis
    using getSchemes_order [OF app, of constructed] app
    by (simp add: appSchemes_def)
qed

subsection \<open>The context value\<close>

text \<open>
  C7. The context value of every item is \<open>build\<close> followed by \<open>&status=\<close> and the status,
  which is \<open>running\<close> when \<open>isSchemeRunning\<close> is true and \<open>idle\<close> when it is false: the item
  reads \<open>build&status=running\<close> exactly in the first case and \<open>build&status=idle\<close> exactly
  in the second.
\<close>

theorem contextValue_status:
  "contextValue (BuildTreeItem_constructor options) =
     Some (ascii ''build'' @ ascii ''&status='' @
           (if opt_isSchemeRunning options then ascii ''running'' else ascii ''idle''))
   \<and> (opt_isSchemeRunning options \<longleftrightarrow>
        contextValue (BuildTreeItem_constructor options) = Some (ascii ''build&status=running''))
   \<and> (\<not> opt_isSchemeRunning options \<longleftrightarrow>
        contextValue (BuildTreeItem_constructor options) = Some (ascii ''build&status=idle''))"
  by (simp add: BuildTreeItem_constructor_def buildContextValue_def ascii_def Let_def)

subsection \<open>getTreeItem\<close>

text \<open>
  C8. \<open>getTreeItem\<close> returns the node it was given and leaves the world as it was.
\<close>

theorem getTreeItem_identity:
  "getTreeItem element w = (element, w)"
  by (simp add: getTreeItem_def)

subsection \<open>The context key of the empty state\<close>

text \<open>
  C9. \<open>getSchemes\<close> executes \<open>setContext\<close> for \<open>sweetpad.build.noSchemes\<close> with the value true
  when it returns no node, and executes nothing and leaves the host's context keys as
  they are when it returns a node. Over any sequence of events and calls every command
  executed is that one command, and a key that is true at the beginning is true at the
  end.
\<close>

theorem noSchemes_flag:
  "executed (snd (getSchemes mgr w)) =
     executed w @ (if fst (getSchemes mgr w) = [] then [noSchemesCommand] else [])
   \<and> (fst (getSchemes mgr w) \<noteq> [] \<longrightarrow>
        contextKeys (snd (getSchemes mgr w)) = contextKeys w)
   \<and> (performAll calls w = Some w' \<longrightarrow>
        (\<exists>n. executed w' = executed w @ replicate n noSchemesCommand)
        \<and> (contextKeys w (ascii ''sweetpad.build.noSchemes'') = Some (JSBoolean True) \<longrightarrow>
            contextKeys w' (ascii ''sweetpad.build.noSchemes'') = Some (JSBoolean True)))"
  using getSchemes_context [of mgr w] performAll_context [of calls w w'] by simp

theorem noSchemes_flag_witness:
  "contextKeys constructed (ascii ''sweetpad.build.noSchemes'') = None
   \<and> contextKeys flaggedWorld (ascii ''sweetpad.build.noSchemes'') = Some (JSBoolean True)
   \<and> fst (getSchemes appManager flaggedWorld) \<noteq> []
   \<and> performAll [GetSchemes appManager, Emit refreshStarted] flaggedWorld =
       Some (emit refreshStarted (snd (getSchemes appManager flaggedWorld)))
   \<and> contextKeys (snd (getSchemes appManager flaggedWorld)) = contextKeys flaggedWorld
   \<and> contextKeys (emit refreshStarted (snd (getSchemes appManager flaggedWorld)))
       (ascii ''sweetpad.build.noSchemes'') = Some (JSBoolean True)"
proof -
  have unset: "contextKeys constructed (ascii ''sweetpad.build.noSchemes'') = None"
    by (simp add: constructed_def)
  have none: "outcome emptyManager = Inr []" by (simp add: emptyManager_def)
  have flag: "contextKeys flaggedWorld (ascii ''sweetpad.build.noSchemes'') = Some (JSBoolean True)"
    unfolding flaggedWorld_def using getSchemes_empty [OF none, of constructed] by simp
  have nodes: "fst (getSchemes appManager flaggedWorld) \<noteq> []"
    by (simp add: getSchemes_nodes appManager_def appSchemes_def)
  have run: "performAll [GetSchemes appManager, Emit refreshStarted] flaggedWorld =
       Some (emit refreshStarted (snd (getSchemes appManager flaggedWorld)))"
    by simp
  show ?thesis
    using noSchemes_flag [where mgr = appManager and w = flaggedWorld
        and calls = "[GetSchemes appManager, Emit refreshStarted]"
        and w' = "emit refreshStarted (snd (getSchemes appManager flaggedWorld))"]
      unset flag nodes run
    by simp
qed

subsection \<open>The text of the description\<close>

text \<open>
  C10. With the build default alone the description is a space and the check mark, with
  the testing default alone it is a space and \<open>(t)\<close>, with both it is the first followed by
  the second; so whenever a mark applies the description begins with a space.
\<close>

theorem description_markers:
  "(opt_isDefaultBuild options \<and> \<not> opt_isDefaultTesting options \<longrightarrow>
      description (BuildTreeItem_constructor options) = Some (ascii '' '' @ [checkMark]))
   \<and> (\<not> opt_isDefaultBuild options \<and> opt_isDefaultTesting options \<longrightarrow>
      description (BuildTreeItem_constructor options) = Some (ascii '' (t)''))
   \<and> (opt_isDefaultBuild options \<and> opt_isDefaultTesting options \<longrightarrow>
      description (BuildTreeItem_constructor options) =
        Some (ascii '' '' @ [checkMark] @ ascii '' (t)''))
   \<and> (opt_isDefaultBuild options \<or> opt_isDefaultTesting options \<longrightarrow>
      (\<exists>rest. description (BuildTreeItem_constructor options) = Some (ascii '' '' @ rest)))"
  by (simp add: BuildTreeItem_constructor_def buildDescription_cases ascii_def Let_def)

theorem description_markers_witness:
  "opt_isDefaultBuild (appOptions True False) \<and> \<not> opt_isDefaultTesting (appOptions True False)
   \<and> description (BuildTreeItem_constructor (appOptions True False)) =
       Some (ascii '' '' @ [checkMark])
   \<and> \<not> opt_isDefaultBuild (appOptions False True) \<and> opt_isDefaultTesting (appOptions False True)
   \<and> description (BuildTreeItem_constructor (appOptions False True)) = Some (ascii '' (t)'')
   \<and> opt_isDefaultBuild (appOptions True True) \<and> opt_isDefaultTesting (appOptions True True)
   \<and> description (BuildTreeItem_constructor (appOptions True True)) =
       Some (ascii '' '' @ [checkMark] @ ascii '' (t)'')"
proof -
  have flags: "opt_isDefaultBuild (appOptions b t) = b" "opt_isDefaultTesting (appOptions b t) = t"
    for b t by (simp_all add: appOptions_def)
  show ?thesis
    using description_markers [of "appOptions True False"]
      description_markers [of "appOptions False True"]
      description_markers [of "appOptions True True"]
    by (simp add: flags)
qed

end
